theory Spec2Isabelle
  imports Complex_Main "HOL-Library.Word" "HOL-Library.Signed_Division"
begin

unbundle bit_operations_syntax

section \<open>Lunix:TNG: constants and data\<close>

text \<open>
  \<^verbatim>\<open>enum lunix_msr_enum { BATT = 0, TEMP, LIGHT, N_LUNIX_MSR };\<close> (lunix.h, as quoted in
  docs/lunix-sensors.md). The session's \<^verbatim>\<open>type\<close> field is a plain integer in the
  code, so the enumerators are numbers here as well.
\<close>

definition BATT :: nat where "BATT = 0"
definition TEMP :: nat where "TEMP = 1"
definition LIGHT :: nat where "LIGHT = 2"
definition N_LUNIX_MSR :: nat where "N_LUNIX_MSR = 3"

text \<open>\<^verbatim>\<open>#define LUNIX_SENSOR_CNT 16\<close>, the default of \<^verbatim>\<open>lunix_sensor_cnt\<close>.\<close>

definition LUNIX_SENSOR_CNT :: nat where "LUNIX_SENSOR_CNT = 16"

text \<open>
  The errno values of Linux that lunix-chrdev.c returns, negated, as the code does, and
  \<^verbatim>\<open>ENXIO\<close>, with which the kernel refuses to open a device number no driver answers for.
\<close>

definition ENXIO :: int where "ENXIO = 6"
definition EAGAIN :: int where "EAGAIN = 11"
definition ENOMEM :: int where "ENOMEM = 12"
definition EFAULT :: int where "EFAULT = 14"
definition EINVAL :: int where "EINVAL = 22"
definition ERESTARTSYS :: int where "ERESTARTSYS = 512"

text \<open>
  \<^verbatim>\<open>struct lunix_msr_data_struct { uint32_t magic; uint32_t last_update; uint32_t values[]; }\<close>.
  Only \<^verbatim>\<open>values[0]\<close> is ever read or written.
\<close>

record lunix_msr_data_struct =
  magic :: "32 word"
  last_update :: "32 word"
  values0 :: "32 word"

text \<open>
  \<^verbatim>\<open>struct lunix_sensor_struct\<close>: the array \<^verbatim>\<open>msr_data[N_LUNIX_MSR]\<close>, one entry for
  each measurement, the spinlock (held or not) and the wait queue (the number of wake-ups
  it has received).
\<close>

record lunix_sensor_struct =
  msr_batt :: lunix_msr_data_struct
  msr_temp :: lunix_msr_data_struct
  msr_light :: lunix_msr_data_struct
  lock :: bool
  wq :: nat

text \<open>
  \<^verbatim>\<open>sensor->msr_data[t]\<close>. The array has \<^verbatim>\<open>N_LUNIX_MSR\<close> entries; an index beyond
  them is a read outside the array, which C leaves undefined: \<open>None\<close>.
\<close>

definition msr_data :: "lunix_sensor_struct \<Rightarrow> nat \<Rightarrow> lunix_msr_data_struct option" where
  "msr_data sensor t =
     (if t = BATT then Some (msr_batt sensor)
      else if t = TEMP then Some (msr_temp sensor)
      else if t = LIGHT then Some (msr_light sensor)
      else None)"

text \<open>
  \<^verbatim>\<open>struct lunix_chrdev_state_struct\<close> (lunix-chrdev.h), with the fields lunix-chrdev.c
  uses: \<^verbatim>\<open>type\<close>, \<^verbatim>\<open>sensor\<close> (a pointer into \<^verbatim>\<open>lunix_sensors\<close>, kept as the index),
  \<^verbatim>\<open>buf_lim\<close>, \<^verbatim>\<open>buf_data\<close> (the characters \<^verbatim>\<open>snprintf\<close> stored, without the
  terminating NUL) and \<^verbatim>\<open>buf_timestamp\<close>.
\<close>

record lunix_chrdev_state_struct =
  type :: nat
  sensor :: nat
  buf_lim :: int
  buf_data :: string
  buf_timestamp :: "32 word"

text \<open>
  The three lookup tables of lunix-lookup.h, \<^verbatim>\<open>long lookup_voltage[65536]\<close> and its
  siblings. The header is generated at build time; its contents are a parameter.
\<close>

record lookup_tables =
  lookup_voltage :: "nat \<Rightarrow> int"
  lookup_temperature :: "nat \<Rightarrow> int"
  lookup_light :: "nat \<Rightarrow> int"

text \<open>\<^verbatim>\<open>table[raw_data]\<close>: each table has 65536 entries.\<close>

definition table_at :: "(nat \<Rightarrow> int) \<Rightarrow> 32 word \<Rightarrow> int option" where
  "table_at tab raw_data = (if unat raw_data < 65536 then Some (tab (unat raw_data)) else None)"

section \<open>Formatting: \<^verbatim>\<open>snprintf(buf, size, "%ld.%03ld\n", a, b)\<close>\<close>

definition digit_char :: "nat \<Rightarrow> char" where
  "digit_char d = ''0123456789'' ! d"

text \<open>The decimal digits of a natural number, most significant first, as \<^verbatim>\<open>%lu\<close> prints them.\<close>

fun dec_digits :: "nat \<Rightarrow> string" where
  "dec_digits n = (if n < 10 then [digit_char n] else dec_digits (n div 10) @ [digit_char (n mod 10)])"

declare dec_digits.simps [simp del]

text \<open>\<^verbatim>\<open>%ld\<close>: a minus sign for a negative argument, then the digits of its magnitude.\<close>

definition fmt_ld :: "int \<Rightarrow> string" where
  "fmt_ld v = (if v < 0 then CHR ''-'' # dec_digits (nat (- v)) else dec_digits (nat v))"

text \<open>
  \<^verbatim>\<open>%03ld\<close>: minimum field width 3, padded with zeros after the sign.
\<close>

definition fmt_03ld :: "int \<Rightarrow> string" where
  "fmt_03ld v =
     (let ds = dec_digits (nat \<bar>v\<bar>) in
      if v < 0 then CHR ''-'' # replicate (2 - length ds) CHR ''0'' @ ds
      else replicate (3 - length ds) CHR ''0'' @ ds)"

text \<open>The whole text the format \<^verbatim>\<open>"%ld.%03ld\n"\<close> produces for two arguments.\<close>

definition fmt_value :: "int \<Rightarrow> int \<Rightarrow> string" where
  "fmt_value a b = fmt_ld a @ ''.'' @ fmt_03ld b @ [CHR 0x0A]"

text \<open>The number a string of decimal digits denotes.\<close>

definition decimal_value :: "string \<Rightarrow> nat" where
  "decimal_value ds = foldl (\<lambda>a c. 10 * a + (of_char c - 48)) 0 ds"

text \<open>
  \<^verbatim>\<open>snprintf\<close> with a buffer of \<open>sz\<close> bytes: at most \<open>sz - 1\<close> characters are
  stored (then a NUL), and the value returned is the length of the whole text, stored or not.
\<close>

definition snprintf :: "nat \<Rightarrow> string \<Rightarrow> string \<times> int" where
  "snprintf sz text = (take (sz - 1) text, int (length text))"

section \<open>lunix-chrdev.c\<close>

text \<open>
  \<^verbatim>\<open>lunix_chrdev_state_needs_refresh\<close>: 1 when the cached timestamp differs from the
  sensor's \<^verbatim>\<open>last_update\<close> for the session's measurement, 0 otherwise.
\<close>

definition lunix_chrdev_state_needs_refresh ::
  "lunix_sensor_struct \<Rightarrow> lunix_chrdev_state_struct \<Rightarrow> bool option" where
  "lunix_chrdev_state_needs_refresh sens state =
     (case msr_data sens (type state) of
        None \<Rightarrow> None
      | Some m \<Rightarrow> Some (buf_timestamp state \<noteq> last_update m))"

text \<open>
  \<^verbatim>\<open>lunix_chrdev_state_update\<close>. The result is the return value and the session
  state it leaves. \<open>bufsz\<close> is \<^verbatim>\<open>LUNIX_CHRDEV_BUFSZ\<close> (lunix-chrdev.h). The sensor is
  the one \<^verbatim>\<open>state->sensor\<close> points to, as it is during the call.
  \<^verbatim>\<open>converted_value / 1000\<close> and \<^verbatim>\<open>converted_value % 1000\<close> are C's truncating
  division and remainder on \<^verbatim>\<open>long\<close>.
\<close>

definition lunix_chrdev_state_update ::
  "lookup_tables \<Rightarrow> nat \<Rightarrow> lunix_sensor_struct \<Rightarrow> lunix_chrdev_state_struct
     \<Rightarrow> (int \<times> lunix_chrdev_state_struct) option" where
  "lunix_chrdev_state_update tabs bufsz sens state =
     (case lunix_chrdev_state_needs_refresh sens state of
        None \<Rightarrow> None
      | Some False \<Rightarrow> Some (- EAGAIN, state)
      | Some True \<Rightarrow>
          (case msr_data sens (type state) of
             None \<Rightarrow> None
           | Some m \<Rightarrow>
               let raw_data = values0 m;
                   state1 = state\<lparr>buf_timestamp := last_update m\<rparr>;
                   converted =
                     (if type state = BATT then map_option Some (table_at (lookup_voltage tabs) raw_data)
                      else if type state = TEMP then map_option Some (table_at (lookup_temperature tabs) raw_data)
                      else if type state = LIGHT then map_option Some (table_at (lookup_light tabs) raw_data)
                      else Some None)
               in (case converted of
                     None \<Rightarrow> None
                   | Some None \<Rightarrow> Some (- EINVAL, state1)
                   | Some (Some converted_value) \<Rightarrow>
                       let (data, lim) = snprintf bufsz
                             (fmt_value (converted_value sdiv 1000) \<bar>converted_value smod 1000\<bar>)
                       in Some (0, state1\<lparr>buf_data := data, buf_lim := lim\<rparr>))))"

text \<open>
  \<^verbatim>\<open>lunix_chrdev_open\<close>. \<open>minor_num\<close> is \<^verbatim>\<open>iminor(inode)\<close>; \<open>nso\<close> is the value of
  \<^verbatim>\<open>nonseekable_open\<close>; \<open>kmalloc\<close> is \<open>None\<close> when the allocation fails and otherwise
  the bytes the fresh block holds where \<^verbatim>\<open>buf_data\<close> lies (open does not initialise them).
  The result is the errno (\<open>Inl\<close>, no state is created) or the state stored in
  \<^verbatim>\<open>filp->private_data\<close>.
\<close>

definition lunix_chrdev_open ::
  "int \<Rightarrow> string option \<Rightarrow> nat \<Rightarrow> int + lunix_chrdev_state_struct" where
  "lunix_chrdev_open nso kmalloc minor_num =
     (if nso < 0 then Inl nso
      else
        let type = minor_num mod 8;
            sensor_num = minor_num div 8
        in if type \<ge> N_LUNIX_MSR then Inl (- EINVAL)
           else (case kmalloc of
                   None \<Rightarrow> Inl (- ENOMEM)
                 | Some garbage \<Rightarrow>
                     Inr \<lparr>type = type, sensor = sensor_num, buf_lim = 0,
                          buf_data = garbage, buf_timestamp = 0\<rparr>))"

text \<open>
  \<^verbatim>\<open>unsigned int lunix_minor_cnt = lunix_sensor_cnt << 3\<close> of \<^verbatim>\<open>lunix_chrdev_init\<close>.
  \<open>sensor_cnt\<close> is the number of sensors, which \<^verbatim>\<open>int lunix_sensor_cnt\<close> holds; the
  shift is computed in 32 bits and wraps.
\<close>

definition lunix_minor_cnt :: "nat \<Rightarrow> 32 word" where
  "lunix_minor_cnt sensor_cnt = push_bit 3 (word_of_nat sensor_cnt :: 32 word)"

text \<open>
  The \<^verbatim>\<open>open\<close> of a device node of major \<^verbatim>\<open>LUNIX_CHRDEV_MAJOR\<close> and minor number
  \<open>minor_num\<close>, once \<^verbatim>\<open>lunix_chrdev_init\<close> has succeeded. Its
  \<^verbatim>\<open>cdev_add(&lunix_chrdev_cdev, dev_no, lunix_minor_cnt)\<close> with
  \<^verbatim>\<open>dev_no = MKDEV(LUNIX_CHRDEV_MAJOR, 0)\<close> makes the device answer for the minor numbers
  from 0 up to \<^verbatim>\<open>lunix_minor_cnt - 1\<close>: for those the kernel calls
  \<^verbatim>\<open>lunix_chrdev_open\<close>, for any other it finds no device and the open fails with
  \<^verbatim>\<open>-ENXIO\<close> before the driver is entered.
\<close>

definition chrdev_open ::
  "nat \<Rightarrow> int \<Rightarrow> string option \<Rightarrow> nat \<Rightarrow> int + lunix_chrdev_state_struct" where
  "chrdev_open sensor_cnt nso kmalloc minor_num =
     (if minor_num < unat (lunix_minor_cnt sensor_cnt) then lunix_chrdev_open nso kmalloc minor_num
      else Inl (- ENXIO))"

text \<open>
  What the environment does during one \<^verbatim>\<open>lunix_chrdev_read\<close>: whether the first
  \<^verbatim>\<open>down_interruptible\<close> is interrupted; the array \<^verbatim>\<open>lunix_sensors\<close> as the
  first refresh finds it; for every round of the waiting loop, how
  \<^verbatim>\<open>wait_event_interruptible\<close> ends (interrupted by a signal, or woken with the
  sensors in a new state) and whether the \<^verbatim>\<open>down_interruptible\<close> after it is
  interrupted; whether \<^verbatim>\<open>copy_to_user\<close> fails.
\<close>

datatype wait_result = Interrupted | Woken "lunix_sensor_struct list"

record read_env =
  down_intr :: bool
  sensors0 :: "lunix_sensor_struct list"
  waits :: "(wait_result \<times> bool) list"
  copy_fails :: bool

text \<open>
  A call returns a value, or never returns because it sleeps and nothing wakes it
  (\<open>Blocked\<close>), or leaves defined behaviour by reading outside an array (\<open>Fault\<close>).
\<close>

datatype 'a exec = Done 'a | Blocked | Fault

datatype refresh_loop = Go_on lunix_chrdev_state_struct | Leave int lunix_chrdev_state_struct
  | Sleeps | Broken

text \<open>
  The loop \<^verbatim>\<open>while (lunix_chrdev_state_update(state) == -EAGAIN) { up; wait; down }\<close>
  of \<^verbatim>\<open>lunix_chrdev_read\<close>. It ends with the state to go on with, or returns
  \<^verbatim>\<open>-ERESTARTSYS\<close> from inside, or sleeps for ever when no further event comes.
  \<^verbatim>\<open>state->sensor\<close> is \<^verbatim>\<open>&lunix_sensors[sensor_num]\<close>: the refresh reads through it,
  which is a read outside the array when the index is not below its length.
\<close>

fun refresh_wait_loop ::
  "lookup_tables \<Rightarrow> nat \<Rightarrow> lunix_sensor_struct list \<Rightarrow> (wait_result \<times> bool) list
     \<Rightarrow> lunix_chrdev_state_struct \<Rightarrow> refresh_loop" where
  "refresh_wait_loop tabs bufsz sensors ws state =
     (case (if sensor state < length sensors
            then lunix_chrdev_state_update tabs bufsz (sensors ! sensor state) state
            else None) of
        None \<Rightarrow> Broken
      | Some (ret, state') \<Rightarrow>
          if ret = - EAGAIN then
            (case ws of
               [] \<Rightarrow> Sleeps
             | (Interrupted, _) # _ \<Rightarrow> Leave (- ERESTARTSYS) state'
             | (Woken sensors', intr) # ws' \<Rightarrow>
                 if intr then Leave (- ERESTARTSYS) state'
                 else refresh_wait_loop tabs bufsz sensors' ws' state')
          else Go_on state')"

declare refresh_wait_loop.simps [simp del]

text \<open>
  \<^verbatim>\<open>lunix_chrdev_read\<close>. The result is the return value, the session state, the new
  \<^verbatim>\<open>*f_pos\<close> and the bytes copied to the caller. \<open>cnt\<close> is the \<^verbatim>\<open>size_t\<close> argument.
  The bytes are read from \<^verbatim>\<open>buf_data + *f_pos\<close>; reading past what the buffer holds is
  a \<open>Fault\<close>.
\<close>

definition lunix_chrdev_read ::
  "lookup_tables \<Rightarrow> nat \<Rightarrow> read_env \<Rightarrow> lunix_chrdev_state_struct \<Rightarrow> nat \<Rightarrow> int
     \<Rightarrow> (int \<times> lunix_chrdev_state_struct \<times> int \<times> string) exec" where
  "lunix_chrdev_read tabs bufsz env state cnt f_pos =
     (if down_intr env then Done (- ERESTARTSYS, state, f_pos, [])
      else
        (case (if f_pos = 0 then refresh_wait_loop tabs bufsz (sensors0 env) (waits env) state
               else Go_on state) of
           Broken \<Rightarrow> Fault
         | Sleeps \<Rightarrow> Blocked
         | Leave ret state' \<Rightarrow> Done (ret, state', f_pos, [])
         | Go_on state' \<Rightarrow>
             let available_bytes = buf_lim state' - f_pos;
                 available_bytes = (if available_bytes < 0 then 0 else available_bytes);
                 cnt = (if int cnt > available_bytes then nat available_bytes else cnt)
             in if cnt = 0 then Done (0, state', f_pos, [])
                else if copy_fails env then Done (- EFAULT, state', f_pos, [])
                else if f_pos < 0 \<or> nat f_pos + cnt > length (buf_data state') then Fault
                else
                  let f_pos1 = f_pos + int cnt;
                      f_pos2 = (if f_pos1 \<ge> buf_lim state' then 0 else f_pos1)
                  in Done (int cnt, state', f_pos2, take cnt (drop (nat f_pos) (buf_data state')))))"

section \<open>lunix-sensors.c\<close>

text \<open>
  What \<^verbatim>\<open>lunix_sensor_update\<close> does to a sensor, step by step: taking and releasing
  the spinlock, a store into \<^verbatim>\<open>msr_data[k]\<close>, waking the wait queue. A sensor is
  followed together with the steps performed on it so far.
\<close>

datatype sensor_event = Acquire | Store nat | Release | Wake

type_synonym sensor_world = "lunix_sensor_struct \<times> sensor_event list"

definition spin_lock :: "sensor_world \<Rightarrow> sensor_world" where
  "spin_lock w = ((fst w)\<lparr>lock := True\<rparr>, snd w @ [Acquire])"

definition spin_unlock :: "sensor_world \<Rightarrow> sensor_world" where
  "spin_unlock w = ((fst w)\<lparr>lock := False\<rparr>, snd w @ [Release])"

definition wake_up_interruptible :: "sensor_world \<Rightarrow> sensor_world" where
  "wake_up_interruptible w = ((fst w)\<lparr>wq := wq (fst w) + 1\<rparr>, snd w @ [Wake])"

text \<open>\<^verbatim>\<open>s->msr_data[k]-> ... = ...\<close> for one of the three measurements.\<close>

definition store_msr ::
  "nat \<Rightarrow> (lunix_msr_data_struct \<Rightarrow> lunix_msr_data_struct) \<Rightarrow> sensor_world \<Rightarrow> sensor_world" where
  "store_msr k f w =
     (let s = fst w in
      (if k = BATT then s\<lparr>msr_batt := f (msr_batt s)\<rparr>
       else if k = TEMP then s\<lparr>msr_temp := f (msr_temp s)\<rparr>
       else if k = LIGHT then s\<lparr>msr_light := f (msr_light s)\<rparr>
       else s,
       snd w @ [Store k]))"

definition LUNIX_MSR_MAGIC :: "32 word" where
  "LUNIX_MSR_MAGIC = 0xF00DF00D"

text \<open>
  Modelled from the spec: \<^verbatim>\<open>lunix_sensor_update\<close> of lunix-sensors.c, of which
  the sources hold the description in docs/lunix-sensors.md only. Under the sensor's
  spinlock the three raw values are stored (\<^verbatim>\<open>uint16_t\<close> into \<^verbatim>\<open>uint32_t\<close>), the three
  magic numbers set and the three \<^verbatim>\<open>last_update\<close> fields stamped with one reading
  \<open>now\<close> of \<^verbatim>\<open>ktime_get_real_seconds()\<close> (a 64-bit count of seconds, stored in 32 bits);
  the lock is released; the wait queue is woken.
\<close>

definition lunix_sensor_update ::
  "sensor_world \<Rightarrow> 16 word \<Rightarrow> 16 word \<Rightarrow> 16 word \<Rightarrow> 64 word \<Rightarrow> sensor_world" where
  "lunix_sensor_update s batt temp light now =
     (let w1 = spin_lock s;
          w2 = store_msr BATT (\<lambda>m. m\<lparr>values0 := ucast batt\<rparr>) w1;
          w3 = store_msr TEMP (\<lambda>m. m\<lparr>values0 := ucast temp\<rparr>) w2;
          w4 = store_msr LIGHT (\<lambda>m. m\<lparr>values0 := ucast light\<rparr>) w3;
          w5 = store_msr BATT (\<lambda>m. m\<lparr>magic := LUNIX_MSR_MAGIC\<rparr>) w4;
          w6 = store_msr TEMP (\<lambda>m. m\<lparr>magic := LUNIX_MSR_MAGIC\<rparr>) w5;
          w7 = store_msr LIGHT (\<lambda>m. m\<lparr>magic := LUNIX_MSR_MAGIC\<rparr>) w6;
          stamp = (ucast now :: 32 word);
          w8 = store_msr LIGHT (\<lambda>m. m\<lparr>last_update := stamp\<rparr>) w7;
          w9 = store_msr TEMP (\<lambda>m. m\<lparr>last_update := stamp\<rparr>) w8;
          w10 = store_msr BATT (\<lambda>m. m\<lparr>last_update := stamp\<rparr>) w9;
          w11 = spin_unlock w10
      in wake_up_interruptible w11)"

text \<open>
  Successive updates of one sensor: every sensor state the updates leave, in order.
\<close>

fun sensor_updates ::
  "sensor_world \<Rightarrow> (16 word \<times> 16 word \<times> 16 word \<times> 64 word) list \<Rightarrow> sensor_world list" where
  "sensor_updates s [] = []"
| "sensor_updates s ((batt, temp, light, now) # us) =
     (let s' = lunix_sensor_update s batt temp light now in s' # sensor_updates s' us)"

text \<open>
  The locking rule of the spec, on a sequence of steps: the lock is taken only when free
  and released only when held, every store happens with the lock held, and a wake-up
  happens with the lock free. The first argument says whether the lock is held.
\<close>

fun lock_discipline :: "bool \<Rightarrow> sensor_event list \<Rightarrow> bool" where
  "lock_discipline held [] = True"
| "lock_discipline held (Acquire # es) = (\<not> held \<and> lock_discipline True es)"
| "lock_discipline held (Store k # es) = (held \<and> lock_discipline held es)"
| "lock_discipline held (Release # es) = (held \<and> lock_discipline False es)"
| "lock_discipline held (Wake # es) = (\<not> held \<and> lock_discipline held es)"

text \<open>
  Modelled from the spec: \<^verbatim>\<open>lunix_sensor_init\<close> of lunix-sensors.c, of which the
  sources hold the description only. It leaves a sensor with zeroed pages for the three
  measurements, the magic number set in each, the lock free and an empty wait queue.
\<close>

definition lunix_sensor_init :: sensor_world where
  "lunix_sensor_init =
     (let m = \<lparr>magic = LUNIX_MSR_MAGIC, last_update = 0, values0 = 0\<rparr>
      in (\<lparr>msr_batt = m, msr_temp = m, msr_light = m, lock = False, wq = 0\<rparr>, []))"

section \<open>lunix-protocol.c\<close>

definition MAX_PACKET_LEN :: nat where "MAX_PACKET_LEN = 300"
definition PACKET_SIGNATURE_OFFSET :: nat where "PACKET_SIGNATURE_OFFSET = 4"
definition NODE_OFFSET :: nat where "NODE_OFFSET = 9"
definition VREF_OFFSET :: nat where "VREF_OFFSET = 18"
definition TEMPERATURE_OFFSET :: nat where "TEMPERATURE_OFFSET = 20"
definition LIGHT_OFFSET :: nat where "LIGHT_OFFSET = 22"

datatype stage =
    SEEKING_START_BYTE
  | SEEKING_PACKET_TYPE
  | SEEKING_DESTINATION_ADDRESS
  | SEEKING_AM_TYPE
  | SEEKING_AM_GROUP
  | SEEKING_PAYLOAD_LENGTH
  | SEEKING_PAYLOAD
  | SEEKING_CRC
  | SEEKING_END_BYTE

text \<open>
  \<^verbatim>\<open>struct lunix_protocol_state_struct\<close> (lunix-protocol.h, as described in the
  protocol documentation): the stage, the bytes read and to read in it, the position in
  the packet buffer, the escape flag, the payload length and the buffer of
  \<^verbatim>\<open>MAX_PACKET_LEN\<close> bytes.
\<close>

record lunix_protocol_state_struct =
  state :: stage
  bytes_read :: nat
  bytes_to_read :: nat
  pos :: nat
  next_is_special :: bool
  payload_length :: "8 word"
  packet :: "8 word list"

text \<open>
  Modelled from the spec: \<^verbatim>\<open>set_state\<close> and \<^verbatim>\<open>lunix_protocol_init\<close> of
  lunix-protocol.c, of which the sources hold the description only. \<^verbatim>\<open>set_state\<close>
  sets the stage and its two byte counters; \<^verbatim>\<open>lunix_protocol_init\<close> sets
  \<^verbatim>\<open>pos = 0\<close> and \<^verbatim>\<open>next_is_special = 0\<close> and calls
  \<^verbatim>\<open>set_state(state, SEEKING_START_BYTE, 1, 0)\<close>.
\<close>

definition set_state ::
  "lunix_protocol_state_struct \<Rightarrow> stage \<Rightarrow> nat \<Rightarrow> nat \<Rightarrow> lunix_protocol_state_struct" where
  "set_state statep s btr br = statep\<lparr>state := s, bytes_to_read := btr, bytes_read := br\<rparr>"

definition lunix_protocol_init :: "lunix_protocol_state_struct \<Rightarrow> lunix_protocol_state_struct" where
  "lunix_protocol_init st = set_state (st\<lparr>pos := 0, next_is_special := False\<rparr>) SEEKING_START_BYTE 1 0"

text \<open>
  The parser state at start-up: the global \<^verbatim>\<open>lunix_protocol_state\<close> is zeroed storage,
  initialised by \<^verbatim>\<open>lunix_protocol_init\<close>.
\<close>

definition initial_protocol_state :: lunix_protocol_state_struct where
  "initial_protocol_state =
     lunix_protocol_init
       \<lparr>state = SEEKING_START_BYTE, bytes_read = 0, bytes_to_read = 0, pos = 0,
        next_is_special = False, payload_length = 0, packet = replicate MAX_PACKET_LEN 0\<rparr>"

text \<open>
  Modelled from the spec: the data accumulation of \<^verbatim>\<open>lunix_protocol_parse_state\<close>.
  The byte goes to \<^verbatim>\<open>packet[pos++]\<close> and counts as read.
\<close>

definition store_byte :: "8 word \<Rightarrow> lunix_protocol_state_struct \<Rightarrow> lunix_protocol_state_struct" where
  "store_byte b st =
     st\<lparr>packet := (packet st)[pos st := b], pos := pos st + 1, bytes_read := bytes_read st + 1\<rparr>"

text \<open>
  What \<^verbatim>\<open>lunix_protocol_parse_state\<close> reports: more data is needed (0), the bytes of
  the stage have been read (1), or the packet buffer is full (an error, which the
  description of the function has reported as 1 too; it is kept apart here because the
  spec has the parser reset then, with no frame handed over).
\<close>

datatype parse_ret = More | Complete | Too_long

text \<open>
  Modelled from the spec: \<^verbatim>\<open>lunix_protocol_parse_state\<close> of lunix-protocol.c, of
  which the sources hold the description only. The data still to be consumed stands for
  \<^verbatim>\<open>data\<close>, \<^verbatim>\<open>length\<close> and \<^verbatim>\<open>*i\<close>. The loop runs while data remains and the
  stage still wants bytes; it resets the parser when \<^verbatim>\<open>pos\<close> has reached
  \<^verbatim>\<open>MAX_PACKET_LEN\<close>; with \<^verbatim>\<open>use_specials\<close>, \<^verbatim>\<open>0x7D\<close> is not stored and marks the
  next byte, which is stored with bit \<^verbatim>\<open>0x20\<close> flipped.
\<close>

fun lunix_protocol_parse_state ::
  "bool \<Rightarrow> lunix_protocol_state_struct \<Rightarrow> 8 word list
     \<Rightarrow> lunix_protocol_state_struct \<times> 8 word list \<times> parse_ret" where
  "lunix_protocol_parse_state use_specials st [] =
     (st, [], if bytes_read st < bytes_to_read st then More else Complete)"
| "lunix_protocol_parse_state use_specials st (b # bs) =
     (if \<not> bytes_read st < bytes_to_read st then (st, b # bs, Complete)
      else if pos st = MAX_PACKET_LEN then (lunix_protocol_init st, b # bs, Too_long)
      else if use_specials \<and> next_is_special st then
        lunix_protocol_parse_state use_specials
          (store_byte (b XOR 0x20) (st\<lparr>next_is_special := False\<rparr>)) bs
      else if use_specials \<and> b = 0x7D then
        lunix_protocol_parse_state use_specials (st\<lparr>next_is_special := True\<rparr>) bs
      else lunix_protocol_parse_state use_specials (store_byte b st) bs)"

text \<open>
  Modelled from the spec: a stage of \<^verbatim>\<open>lunix_protocol_received_buf\<close> that only
  collects its bytes. When they are complete the next stage is set.
\<close>

definition collect_stage ::
  "stage \<Rightarrow> nat \<Rightarrow> lunix_protocol_state_struct \<Rightarrow> 8 word list
     \<Rightarrow> lunix_protocol_state_struct \<times> 8 word list" where
  "collect_stage next btr st buf =
     (case lunix_protocol_parse_state True st buf of
        (st', rest, Complete) \<Rightarrow> (set_state st' next btr 0, rest)
      | (st', rest, _) \<Rightarrow> (st', rest))"

text \<open>
  Modelled from the spec: one pass through the \<^verbatim>\<open>switch\<close> of
  \<^verbatim>\<open>lunix_protocol_received_buf\<close>. The start byte is read without byte-stuffing into
  \<^verbatim>\<open>packet[0]\<close> (the parser is reset before it seeks a start byte) and must be
  \<^verbatim>\<open>0x7E\<close>, otherwise the parser is reset and goes on seeking it; the fields up to the CRC are
  read with byte-stuffing; the payload length sets the byte count of the payload stage;
  at the end byte, a \<^verbatim>\<open>0x7E\<close> hands the packet to \<open>upd\<close> (which stands for
  \<^verbatim>\<open>lunix_protocol_update_sensors(state, lunix_sensors)\<close> acting on the world \<open>w\<close>
  outside the parser), and the parser is reset in either case.
\<close>

definition received_step ::
  "(8 word list \<Rightarrow> 'w \<Rightarrow> 'w) \<Rightarrow> lunix_protocol_state_struct \<times> 'w \<Rightarrow> 8 word list
     \<Rightarrow> (lunix_protocol_state_struct \<times> 'w) \<times> 8 word list" where
  "received_step upd sw buf =
     (let st = fst sw; w = snd sw in
      case state st of
        SEEKING_START_BYTE \<Rightarrow>
          (case lunix_protocol_parse_state False st buf of
             (st', rest, Complete) \<Rightarrow>
               ((if packet st' ! 0 = 0x7E then set_state st' SEEKING_PACKET_TYPE 1 0
                 else lunix_protocol_init st', w), rest)
           | (st', rest, _) \<Rightarrow> ((st', w), rest))
      | SEEKING_PACKET_TYPE \<Rightarrow>
          (let (st', rest) = collect_stage SEEKING_DESTINATION_ADDRESS 2 st buf in ((st', w), rest))
      | SEEKING_DESTINATION_ADDRESS \<Rightarrow>
          (let (st', rest) = collect_stage SEEKING_AM_TYPE 1 st buf in ((st', w), rest))
      | SEEKING_AM_TYPE \<Rightarrow>
          (let (st', rest) = collect_stage SEEKING_AM_GROUP 1 st buf in ((st', w), rest))
      | SEEKING_AM_GROUP \<Rightarrow>
          (let (st', rest) = collect_stage SEEKING_PAYLOAD_LENGTH 1 st buf in ((st', w), rest))
      | SEEKING_PAYLOAD_LENGTH \<Rightarrow>
          (case lunix_protocol_parse_state True st buf of
             (st', rest, Complete) \<Rightarrow>
               (let len = packet st' ! (pos st' - 1)
                in ((set_state (st'\<lparr>payload_length := len\<rparr>) SEEKING_PAYLOAD (unat len) 0, w), rest))
           | (st', rest, _) \<Rightarrow> ((st', w), rest))
      | SEEKING_PAYLOAD \<Rightarrow>
          (let (st', rest) = collect_stage SEEKING_CRC 2 st buf in ((st', w), rest))
      | SEEKING_CRC \<Rightarrow>
          (let (st', rest) = collect_stage SEEKING_END_BYTE 1 st buf in ((st', w), rest))
      | SEEKING_END_BYTE \<Rightarrow>
          (case lunix_protocol_parse_state False st buf of
             (st', rest, Complete) \<Rightarrow>
               ((lunix_protocol_init st',
                 if packet st' ! (pos st' - 1) = 0x7E then upd (packet st') w else w), rest)
           | (st', rest, _) \<Rightarrow> ((st', w), rest)))"

text \<open>
  How many passes through the \<^verbatim>\<open>switch\<close> can follow without a byte being consumed.
\<close>

definition idle_passes :: "lunix_protocol_state_struct \<Rightarrow> nat" where
  "idle_passes st =
     (if bytes_read st < bytes_to_read st then
        (if pos st = MAX_PACKET_LEN then 1 else 0)
      else if state st = SEEKING_PAYLOAD_LENGTH then 3 else 2)"

text \<open>
  Modelled from the spec: \<^verbatim>\<open>lunix_protocol_received_buf\<close> of lunix-protocol.c, the
  loop \<^verbatim>\<open>while (i < length) switch (state->state) ...\<close> over one buffer handed in by
  the line discipline. The parser state persists from one call to the next.
\<close>

function lunix_protocol_received_buf ::
  "(8 word list \<Rightarrow> 'w \<Rightarrow> 'w) \<Rightarrow> lunix_protocol_state_struct \<times> 'w \<Rightarrow> 8 word list
     \<Rightarrow> lunix_protocol_state_struct \<times> 'w" where
  "lunix_protocol_received_buf upd sw buf =
     (if buf = [] then sw
      else let (sw', rest) = received_step upd sw buf
           in lunix_protocol_received_buf upd sw' rest)"
  by pat_completeness auto
termination
proof (relation "measure (\<lambda>(upd, sw, buf). 4 * length buf + idle_passes (fst sw))")
  show "wf (measure (\<lambda>(upd, sw, buf). 4 * length buf + idle_passes (fst sw)))" by simp
next
  fix upd :: "8 word list \<Rightarrow> 'w \<Rightarrow> 'w" and sw :: "lunix_protocol_state_struct \<times> 'w"
    and buf x sw' rest
  assume buf: "buf \<noteq> []" and x: "x = received_step upd sw buf" and sw': "(sw', rest) = x"
  obtain st w where sw: "sw = (st, w)" by (cases sw)
  obtain st' w' where s': "sw' = (st', w')" by (cases sw')
  have step: "received_step upd (st, w) buf = ((st', w'), rest)"
    using x sw' sw s' by simp
  have p_idle: "lunix_protocol_parse_state us s b = (s, b, Complete)"
    if "\<not> bytes_read s < bytes_to_read s" for us s b
    using that by (cases b) auto
  have p_full: "lunix_protocol_parse_state us s b = (lunix_protocol_init s, b, Too_long)"
    if "bytes_read s < bytes_to_read s" "pos s = MAX_PACKET_LEN" "b \<noteq> []" for us s b
    using that by (cases b) auto
  have p_rest: "length r1 \<le> length b"
    if "lunix_protocol_parse_state us s b = (s1, r1, r)" for us s b s1 r1 r
    using that
    by (induction us s b rule: lunix_protocol_parse_state.induct) (auto split: if_splits)
  have p_eats: "length r1 < length buf"
    if "bytes_read st < bytes_to_read st" "pos st \<noteq> MAX_PACKET_LEN"
      "lunix_protocol_parse_state us st buf = (s1, r1, r)" for us s1 r1 r
    using that buf by (cases buf) (auto split: if_splits dest: p_rest)
  consider (idle) "\<not> bytes_read st < bytes_to_read st"
    | (full) "bytes_read st < bytes_to_read st" "pos st = MAX_PACKET_LEN"
    | (eat) "bytes_read st < bytes_to_read st" "pos st \<noteq> MAX_PACKET_LEN"
    by blast
  then have "4 * length rest + idle_passes st' < 4 * length buf + idle_passes st"
  proof cases
    case idle
    then show ?thesis using buf step
      by (cases "state st")
         (auto simp: received_step_def collect_stage_def p_idle idle_passes_def
            set_state_def lunix_protocol_init_def MAX_PACKET_LEN_def Let_def split: if_splits)
  next
    case full
    then show ?thesis using buf step
      by (cases "state st")
         (auto simp: received_step_def collect_stage_def p_full idle_passes_def
            set_state_def lunix_protocol_init_def MAX_PACKET_LEN_def split: if_splits)
  next
    case eat
    have "length rest < length buf"
      using step p_eats [OF eat]
      by (cases "state st")
         (auto simp: received_step_def collect_stage_def Let_def
            split: prod.splits parse_ret.splits if_splits)
    moreover have "idle_passes st' \<le> 3" by (simp add: idle_passes_def)
    ultimately show ?thesis by linarith
  qed
  then show "((upd, sw', rest), (upd, sw, buf))
          \<in> measure (\<lambda>(upd, sw, buf). 4 * length buf + idle_passes (fst sw))"
    using sw s' by simp
qed

declare lunix_protocol_received_buf.simps [simp del]

text \<open>
  The byte stream arrives in chunks: one call of \<^verbatim>\<open>lunix_protocol_received_buf\<close> for
  each, in order.
\<close>

definition feed_chunks ::
  "(8 word list \<Rightarrow> 'w \<Rightarrow> 'w) \<Rightarrow> lunix_protocol_state_struct \<times> 'w \<Rightarrow> 8 word list list
     \<Rightarrow> lunix_protocol_state_struct \<times> 'w" where
  "feed_chunks upd sw chunks = foldl (lunix_protocol_received_buf upd) sw chunks"

text \<open>A 16-bit value from its two bytes, low byte first.\<close>

definition le16 :: "8 word \<Rightarrow> 8 word \<Rightarrow> 16 word" where
  "le16 lo hi = (ucast lo :: 16 word) OR push_bit 8 (ucast hi)"

text \<open>
  Modelled from the spec: \<^verbatim>\<open>uint16_from_packet(&packet[k])\<close> of lunix-protocol.c, which
  reads two bytes as a little-endian 16-bit value.
\<close>

definition uint16_from_packet :: "8 word list \<Rightarrow> nat \<Rightarrow> 16 word" where
  "uint16_from_packet p k = le16 (p ! k) (p ! (k + 1))"

text \<open>
  Modelled from the spec: the four fields \<^verbatim>\<open>lunix_protocol_update_sensors\<close> extracts
  from a packet, at the offsets of lunix-protocol.c: node id, battery, temperature, light.
\<close>

definition frame_fields :: "8 word list \<Rightarrow> 16 word \<times> 16 word \<times> 16 word \<times> 16 word" where
  "frame_fields p =
     (uint16_from_packet p NODE_OFFSET, uint16_from_packet p VREF_OFFSET,
      uint16_from_packet p TEMPERATURE_OFFSET, uint16_from_packet p LIGHT_OFFSET)"

text \<open>
  What a completed packet can touch: the array \<^verbatim>\<open>lunix_sensors\<close> and the kernel log,
  of which the node ids warned about are kept.
\<close>

record lunix_world =
  lunix_sensors :: "sensor_world list"
  warnings :: "nat list"

text \<open>
  Modelled from the spec: \<^verbatim>\<open>lunix_protocol_update_sensors\<close> of lunix-protocol.c.
  A packet whose byte at \<^verbatim>\<open>PACKET_SIGNATURE_OFFSET\<close> is not \<^verbatim>\<open>0x0B\<close> is left alone.
  Otherwise the fields are extracted; a node id from 1 to \<^verbatim>\<open>lunix_sensor_cnt\<close> updates
  \<^verbatim>\<open>lunix_sensors[nodeid - 1]\<close>, any other only logs a warning. \<open>now\<close> is the clock
  as \<^verbatim>\<open>lunix_sensor_update\<close> reads it.
\<close>

definition lunix_protocol_update_sensors ::
  "nat \<Rightarrow> 64 word \<Rightarrow> 8 word list \<Rightarrow> lunix_world \<Rightarrow> lunix_world" where
  "lunix_protocol_update_sensors sensor_cnt now p w =
     (if p ! PACKET_SIGNATURE_OFFSET = 0x0B then
        (case frame_fields p of
           (nodeid, batt, temp, light) \<Rightarrow>
             if 1 \<le> unat nodeid \<and> unat nodeid \<le> sensor_cnt then
               w\<lparr>lunix_sensors :=
                    (lunix_sensors w)[unat nodeid - 1 :=
                       lunix_sensor_update (lunix_sensors w ! (unat nodeid - 1)) batt temp light now]\<rparr>
             else w\<lparr>warnings := warnings w @ [unat nodeid]\<rparr>)
      else w)"

text \<open>
  A well-formed frame on the wire, following the layout of the spec: the start byte, then
  type, destination address, AM type, AM group, payload length, payload and CRC, each
  byte equal to \<^verbatim>\<open>0x7E\<close> or \<^verbatim>\<open>0x7D\<close> sent as \<^verbatim>\<open>0x7D\<close> and the byte with bit
  \<^verbatim>\<open>0x20\<close> flipped, then the end byte.
\<close>

definition stuff_byte :: "8 word \<Rightarrow> 8 word list" where
  "stuff_byte b = (if b = 0x7E \<or> b = 0x7D then [0x7D, b XOR 0x20] else [b])"

definition stuffed :: "8 word list \<Rightarrow> 8 word list" where
  "stuffed bs = concat (map stuff_byte bs)"

definition frame_body ::
  "8 word \<Rightarrow> 8 word \<times> 8 word \<Rightarrow> 8 word \<Rightarrow> 8 word \<Rightarrow> 8 word list \<Rightarrow> 8 word \<times> 8 word
     \<Rightarrow> 8 word list" where
  "frame_body ptype dest amtype amgroup payload crc =
     [ptype, fst dest, snd dest, amtype, amgroup, of_nat (length payload)] @ payload
       @ [fst crc, snd crc]"

definition wire_frame ::
  "8 word \<Rightarrow> 8 word \<times> 8 word \<Rightarrow> 8 word \<Rightarrow> 8 word \<Rightarrow> 8 word list \<Rightarrow> 8 word \<times> 8 word
     \<Rightarrow> 8 word list" where
  "wire_frame ptype dest amtype amgroup payload crc =
     0x7E # stuffed (frame_body ptype dest amtype amgroup payload crc) @ [0x7E]"

text \<open>
  The four fields of a sensor frame, read from its payload: the packet offsets 9, 18, 20
  and 22 are the payload offsets 2, 11, 13 and 15, the payload starting at byte 7.
\<close>

definition payload_fields :: "8 word list \<Rightarrow> 16 word \<times> 16 word \<times> 16 word \<times> 16 word" where
  "payload_fields payload =
     (le16 (payload ! 2) (payload ! 3), le16 (payload ! 11) (payload ! 12),
      le16 (payload ! 13) (payload ! 14), le16 (payload ! 15) (payload ! 16))"

text \<open>
  Notions the proofs about the parser use: the call of the parsing loop that a pass
  through the switch makes; a parser whose position is within its buffer; a state after
  storing some bytes one by one; and a parser at the beginning of a stage inside a frame,
  with the bytes of the frame stored so far in a buffer that was \<open>pkt0\<close> at the start of
  the frame.
\<close>

definition step_parse ::
  "lunix_protocol_state_struct \<Rightarrow> 8 word list
     \<Rightarrow> lunix_protocol_state_struct \<times> 8 word list \<times> parse_ret" where
  "step_parse st buf =
     lunix_protocol_parse_state
       (state st \<noteq> SEEKING_START_BYTE \<and> state st \<noteq> SEEKING_END_BYTE) st buf"

definition buffer_ok :: "lunix_protocol_state_struct \<Rightarrow> bool" where
  "buffer_ok st \<longleftrightarrow> pos st \<le> MAX_PACKET_LEN \<and> length (packet st) = MAX_PACKET_LEN"

text \<open>
  The position a stage can reach at most: a frame in the buffer has the start byte, six
  bytes of header, a payload of at most 255 bytes (its length is one byte), two bytes of
  CRC and the end byte. A parser is within that budget when the bytes its stage still
  wants fit below it.
\<close>

definition stage_budget :: "stage \<Rightarrow> nat" where
  "stage_budget s =
     (case s of
        SEEKING_START_BYTE \<Rightarrow> 1
      | SEEKING_PACKET_TYPE \<Rightarrow> 2
      | SEEKING_DESTINATION_ADDRESS \<Rightarrow> 4
      | SEEKING_AM_TYPE \<Rightarrow> 5
      | SEEKING_AM_GROUP \<Rightarrow> 6
      | SEEKING_PAYLOAD_LENGTH \<Rightarrow> 7
      | SEEKING_PAYLOAD \<Rightarrow> 262
      | SEEKING_CRC \<Rightarrow> 264
      | SEEKING_END_BYTE \<Rightarrow> 265)"

definition in_budget :: "lunix_protocol_state_struct \<Rightarrow> bool" where
  "in_budget st \<longleftrightarrow>
     bytes_read st \<le> bytes_to_read st
     \<and> pos st + (bytes_to_read st - bytes_read st) \<le> stage_budget (state st)"

definition fill :: "lunix_protocol_state_struct \<Rightarrow> 8 word list \<Rightarrow> lunix_protocol_state_struct" where
  "fill st bs = foldl (\<lambda>s b. store_byte b s) st bs"

definition at_stage ::
  "8 word list \<Rightarrow> lunix_protocol_state_struct \<Rightarrow> stage \<Rightarrow> nat \<Rightarrow> 8 word list \<Rightarrow> bool" where
  "at_stage pkt0 st X k pre \<longleftrightarrow>
     state st = X \<and> bytes_to_read st = k \<and> bytes_read st = 0 \<and> \<not> next_is_special st
     \<and> pos st = length pre \<and> packet st = pre @ drop (length pre) pkt0
     \<and> length pkt0 = MAX_PACKET_LEN"

section \<open>mk-lunix-lookup.c\<close>

text \<open>
  Modelled from the spec: \<^verbatim>\<open>uint16_to_batt\<close> of mk-lunix-lookup.c, of which the
  sources hold the description in docs/mx-lunix-lookup.md only:
  \<^verbatim>\<open>d = 1.223 * (1023.0 / value)\<close> for a non-zero value and 0 otherwise, then
  \<^verbatim>\<open>(long)(d * 1000)\<close>. The arithmetic is that of the rational numbers here; the cast
  to \<^verbatim>\<open>long\<close> drops the fraction.
\<close>

definition uint16_to_batt :: "nat \<Rightarrow> int" where
  "uint16_to_batt v =
     (let d = (if v \<noteq> 0 then (1223 / 1000) * (1023 / of_nat v) else 0 :: rat)
      in \<lfloor>d * 1000\<rfloor>)"

text \<open>
  The value as the spec words it: \<open>round(1.223 \<times> 1023 / raw \<times> 1000)\<close>, rounding to the
  nearest integer.
\<close>

definition batt_millivolts_rounded :: "nat \<Rightarrow> int" where
  "batt_millivolts_rounded raw = round ((1223 / 1000) * 1023 / of_nat raw * 1000 :: rat)"

section \<open>Sessions in use\<close>

text \<open>
  The session states that exist: the one a successful \<^verbatim>\<open>open\<close> creates, and those a
  refresh or a \<^verbatim>\<open>read\<close> leaves from one that exists.
\<close>

inductive session :: "lunix_chrdev_state_struct \<Rightarrow> bool" where
  opened: "lunix_chrdev_open nso kmalloc minor_num = Inr st \<Longrightarrow> session st"
| refreshed: "session st \<Longrightarrow> lunix_chrdev_state_update tabs bufsz sens st = Some (ret, st') \<Longrightarrow> session st'"
| was_read: "session st \<Longrightarrow> lunix_chrdev_read tabs bufsz env st cnt f_pos = Done (ret, st', f_pos', out)
     \<Longrightarrow> session st'"

text \<open>
  A sensor whose raw values are 16-bit samples, as \<^verbatim>\<open>lunix_sensor_init\<close> and
  \<^verbatim>\<open>lunix_sensor_update\<close> leave them: the values index the lookup tables.
\<close>

definition raw_in_range :: "lunix_sensor_struct \<Rightarrow> bool" where
  "raw_in_range sens =
     (unat (values0 (msr_batt sens)) < 65536 \<and> unat (values0 (msr_temp sens)) < 65536
      \<and> unat (values0 (msr_light sens)) < 65536)"

text \<open>
  The reading of the clock an update stores: \<^verbatim>\<open>ktime_get_real_seconds()\<close> cut to the 32
  bits of \<^verbatim>\<open>last_update\<close>.
\<close>

definition clock_of :: "16 word \<times> 16 word \<times> 16 word \<times> 64 word \<Rightarrow> 32 word" where
  "clock_of u = (case u of (batt, temp, light, now) \<Rightarrow> ucast now)"

text \<open>The reading of the clock itself, in seconds.\<close>

definition seconds_of :: "16 word \<times> 16 word \<times> 16 word \<times> 64 word \<Rightarrow> nat" where
  "seconds_of u = (case u of (batt, temp, light, now) \<Rightarrow> unat now)"

section \<open>Values used in the examples\<close>

text \<open>
  A set of lookup tables (the voltage table as \<^verbatim>\<open>uint16_to_batt\<close> fills it), a sensor
  after one update at time 1700000000 with the raw samples 512, 500 and 300, an array of
  \<^verbatim>\<open>LUNIX_SENSOR_CNT\<close> such sensors, and the session a successful open creates for a
  minor number when the allocation returns an empty block.
\<close>

definition example_tables :: lookup_tables where
  "example_tables =
     \<lparr>lookup_voltage = uint16_to_batt, lookup_temperature = (\<lambda>raw. int raw - 12845),
      lookup_light = (\<lambda>raw. 5 * int raw)\<rparr>"

definition example_sensor :: lunix_sensor_struct where
  "example_sensor = fst (lunix_sensor_update lunix_sensor_init 512 500 300 1700000000)"

definition example_sensors :: "lunix_sensor_struct list" where
  "example_sensors = replicate LUNIX_SENSOR_CNT example_sensor"

definition example_session :: "nat \<Rightarrow> lunix_chrdev_state_struct" where
  "example_session minor_num =
     \<lparr>type = minor_num mod 8, sensor = minor_num div 8, buf_lim = 0, buf_data = [],
      buf_timestamp = 0\<rparr>"

text \<open>
  A packet buffer holding a sensor packet of a given node id with the raw samples 512, 500
  and 300, and the sensors and log before any packet.
\<close>

definition example_packet :: "8 word \<Rightarrow> 8 word list" where
  "example_packet nodeid =
     (replicate MAX_PACKET_LEN 0)
       [PACKET_SIGNATURE_OFFSET := 0x0B, NODE_OFFSET := nodeid, VREF_OFFSET := 0x00,
        VREF_OFFSET + 1 := 0x02, TEMPERATURE_OFFSET := 0xF4, TEMPERATURE_OFFSET + 1 := 0x01,
        LIGHT_OFFSET := 0x2C, LIGHT_OFFSET + 1 := 0x01]"

definition example_world :: lunix_world where
  "example_world = \<lparr>lunix_sensors = replicate LUNIX_SENSOR_CNT lunix_sensor_init, warnings = []\<rparr>"

text \<open>
  A payload of 17 bytes with the bytes \<^verbatim>\<open>0x7E\<close> and \<^verbatim>\<open>0x7D\<close> in its fields (node id
  126, samples 637, 500 and 300); and the frame of packet type \<^verbatim>\<open>0x42\<close>, destination
  \<^verbatim>\<open>0x7E 0x00\<close>, AM type \<^verbatim>\<open>0x0B\<close>, AM group \<^verbatim>\<open>0x7D\<close>, that payload and CRC
  \<^verbatim>\<open>0x7E 0x7D\<close>, as it is on the wire, cut into seven chunks (one empty, three cuts
  between an escape byte and the byte it escapes).
\<close>

definition example_payload :: "8 word list" where
  "example_payload =
     [0x00, 0x00, 0x7E, 0x00, 0x00, 0x00, 0x00, 0x00, 0x00, 0x00, 0x00, 0x7D, 0x02, 0xF4, 0x01,
      0x2C, 0x01]"

definition example_chunks :: "8 word list list" where
  "example_chunks =
     [[0x7E, 0x42, 0x7D], [0x5E, 0x00, 0x0B, 0x7D, 0x5D, 0x11, 0x00, 0x00, 0x7D],
      [0x5E], [], [0x00, 0x00, 0x00, 0x00, 0x00, 0x00, 0x00, 0x00, 0x7D, 0x5D, 0x02, 0xF4],
      [0x01, 0x2C, 0x01, 0x7D, 0x5E, 0x7D], [0x5D, 0x7E]]"

text \<open>A parser in the payload stage whose buffer is full.\<close>

definition example_full_state :: lunix_protocol_state_struct where
  "example_full_state =
     initial_protocol_state\<lparr>state := SEEKING_PAYLOAD, bytes_to_read := 255, bytes_read := 100,
       pos := MAX_PACKET_LEN\<rparr>"

section \<open>The session: refresh, open and read\<close>

lemma msr_data_Some_iff: "(\<exists>m. msr_data sens t = Some m) \<longleftrightarrow> t < N_LUNIX_MSR"
  by (auto simp: msr_data_def N_LUNIX_MSR_def BATT_def TEMP_def LIGHT_def)

lemma state_update_cases:
  assumes "lunix_chrdev_state_update tabs bufsz sens st = Some (ret, st')"
  shows "type st < N_LUNIX_MSR \<and> type st' = type st \<and> sensor st' = sensor st
         \<and> (ret = 0 \<or> ret = - EAGAIN \<and> st' = st)"
  using assms msr_data_Some_iff [of sens "type st"]
  by (auto simp: lunix_chrdev_state_update_def lunix_chrdev_state_needs_refresh_def Let_def
        snprintf_def N_LUNIX_MSR_def BATT_def TEMP_def LIGHT_def
        split: option.splits bool.splits if_splits prod.splits)

lemma state_update_defined:
  assumes "type st < N_LUNIX_MSR" and "raw_in_range sens"
  shows "\<exists>ret st'. lunix_chrdev_state_update tabs bufsz sens st = Some (ret, st')"
  using assms
  by (auto simp: lunix_chrdev_state_update_def lunix_chrdev_state_needs_refresh_def Let_def
        snprintf_def N_LUNIX_MSR_def BATT_def TEMP_def LIGHT_def msr_data_def raw_in_range_def
        table_at_def
        split: option.splits bool.splits if_splits prod.splits)

lemma refresh_wait_loop_cases:
  "(refresh_wait_loop tabs bufsz sens ws st = Go_on st' \<longrightarrow>
      type st' = type st \<and> sensor st' = sensor st) \<and>
   (refresh_wait_loop tabs bufsz sens ws st = Leave ret st' \<longrightarrow>
      type st' = type st \<and> sensor st' = sensor st \<and> ret = - ERESTARTSYS)"
proof (induction tabs bufsz sens ws st rule: refresh_wait_loop.induct)
  case (1 tabs bufsz sens ws state)
  note unf = refresh_wait_loop.simps [of tabs bufsz sens ws state]
  define u where "u = (if sensor state < length sens
            then lunix_chrdev_state_update tabs bufsz (sens ! sensor state) state
            else None)"
  note unf = unf [folded u_def]
  show ?case
  proof (cases u)
    case None
    then show ?thesis unfolding unf by simp
  next
    case (Some a)
    obtain r s1 where a: "a = (r, s1)" by (cases a)
    have "lunix_chrdev_state_update tabs bufsz (sens ! sensor state) state = Some (r, s1)"
      using Some a by (auto simp: u_def split: if_splits)
    note t = state_update_cases [OF this]
    show ?thesis
    proof (cases "r = - EAGAIN")
      case False
      then show ?thesis unfolding unf using Some a t by auto
    next
      case True
      show ?thesis
      proof (cases ws)
        case Nil
        then show ?thesis unfolding unf using Some a True by simp
      next
        case (Cons x ws')
        obtain wr intr where x: "x = (wr, intr)" by (cases x)
        show ?thesis
        proof (cases wr)
          case Interrupted
          then show ?thesis unfolding unf using Some a True Cons x t by auto
        next
          case (Woken sens')
          show ?thesis
          proof (cases intr)
            case True
            then show ?thesis unfolding unf using Some a \<open>r = - EAGAIN\<close> Cons x t Woken by auto
          next
            case False
            have "refresh_wait_loop tabs bufsz sens ws state = refresh_wait_loop tabs bufsz sens' ws' s1"
              unfolding unf using Some a \<open>r = - EAGAIN\<close> Cons x Woken False by simp
            moreover note "1.IH" [OF Some [unfolded u_def] a [symmetric] \<open>r = - EAGAIN\<close> Cons x [symmetric] Woken False]
            ultimately show ?thesis using t by simp
          qed
        qed
      qed
    qed
  qed
qed

lemma read_outcomes:
  assumes "lunix_chrdev_read tabs bufsz env st cnt f_pos = Done (ret, st', f_pos', out)"
  shows "type st' = type st \<and> sensor st' = sensor st \<and>
         ((0 < ret \<and> ret = int (length out) \<and> ret \<le> int cnt) \<or> (ret = 0 \<and> out = [])
          \<or> (ret = - ERESTARTSYS \<and> out = []) \<or> (ret = - EFAULT \<and> copy_fails env \<and> out = []))"
proof (cases "down_intr env")
  case True
  then show ?thesis using assms by (simp add: lunix_chrdev_read_def)
next
  case False
  define lp where "lp = (if f_pos = 0 then refresh_wait_loop tabs bufsz (sensors0 env) (waits env) st
               else Go_on st)"
  show ?thesis
  proof (cases lp)
    case (Go_on s1)
    then have t: "type s1 = type st \<and> sensor s1 = sensor st"
      using refresh_wait_loop_cases [of tabs bufsz "sensors0 env" "waits env" st s1]
      by (auto simp: lp_def split: if_splits)
    show ?thesis using assms False Go_on t
      unfolding lunix_chrdev_read_def lp_def [symmetric]
      by (auto simp: Let_def split: if_splits)
  next
    case (Leave r s1)
    then have t: "type s1 = type st \<and> sensor s1 = sensor st \<and> r = - ERESTARTSYS"
      using refresh_wait_loop_cases [of tabs bufsz "sensors0 env" "waits env" st s1 r]
      by (auto simp: lp_def split: if_splits)
    show ?thesis using assms False Leave t
      unfolding lunix_chrdev_read_def lp_def [symmetric]
      by (auto simp: Let_def split: if_splits)
  next
    case Sleeps
    then show ?thesis using assms False
      unfolding lunix_chrdev_read_def lp_def [symmetric] by simp
  next
    case Broken
    then show ?thesis using assms False
      unfolding lunix_chrdev_read_def lp_def [symmetric] by simp
  qed
qed

lemma open_cases:
  assumes "lunix_chrdev_open nso kmalloc minor_num = Inr st"
  shows "type st = minor_num mod 8 \<and> type st < N_LUNIX_MSR \<and> sensor st = minor_num div 8
         \<and> buf_lim st = 0 \<and> buf_timestamp st = 0"
  using assms
  by (auto simp: lunix_chrdev_open_def Let_def split: if_splits option.splits)

lemma session_type: "session st \<Longrightarrow> type st < N_LUNIX_MSR"
proof (induction rule: session.induct)
  case (opened nso kmalloc minor_num st)
  then show ?case using open_cases by blast
next
  case (refreshed st tabs bufsz sens ret st')
  then show ?case using state_update_cases by metis
next
  case (was_read st tabs bufsz env cnt f_pos ret st' f_pos' out)
  then show ?case using read_outcomes by metis
qed

subsection \<open>Rendering\<close>

lemma dec_digits_small: "n < 10 \<Longrightarrow> dec_digits n = [digit_char n]"
  by (simp add: dec_digits.simps)

lemma dec_digits_step: "10 \<le> n \<Longrightarrow> dec_digits n = dec_digits (n div 10) @ [digit_char (n mod 10)]"
  by (subst dec_digits.simps) simp

lemma fmt_03ld_digits:
  assumes "0 \<le> m" and "m < 1000"
  shows "fmt_03ld m = [digit_char (nat m div 100), digit_char (nat m div 10 mod 10), digit_char (nat m mod 10)]"
proof -
  define n where "n = nat m"
  have n: "n < 1000" "\<bar>m\<bar> = int n" "\<not> m < 0" using assms by (auto simp: n_def)
  consider "n < 10" | "10 \<le> n" "n < 100" | "100 \<le> n" by linarith
  then have "replicate (3 - length (dec_digits n)) CHR ''0'' @ dec_digits n =
               [digit_char (n div 100), digit_char (n div 10 mod 10), digit_char (n mod 10)]"
  proof cases
    case 1
    then show ?thesis by (simp add: dec_digits_small digit_char_def numeral_3_eq_3)
  next
    case 2
    then have "n div 10 < 10" by simp
    with 2 show ?thesis
      by (simp add: dec_digits_step dec_digits_small digit_char_def numeral_3_eq_3)
  next
    case 3
    then have a: "10 \<le> n" "10 \<le> n div 10" "n div 10 div 10 < 10" "n div 10 div 10 = n div 100"
      using n by (simp_all add: div_mult2_eq)
    show ?thesis
      using a by (simp add: dec_digits_step dec_digits_small)
  qed
  then show ?thesis using n by (simp add: fmt_03ld_def Let_def n_def)
qed

lemma sdiv_1000: "(v::int) sdiv 1000 = sgn v * (\<bar>v\<bar> div 1000)"
  by (simp add: signed_divide_int_def)

lemma smod_1000: "\<bar>(v::int) smod 1000\<bar> = \<bar>v\<bar> mod 1000"
  by (cases "v = 0") (simp_all add: signed_modulo_int_def abs_mult)

lemma digit_char_code: "d < 10 \<Longrightarrow> of_char (digit_char d) = (48 + d :: nat)"
proof -
  assume "d < 10"
  then have "d = 0 \<or> d = 1 \<or> d = 2 \<or> d = 3 \<or> d = 4 \<or> d = 5 \<or> d = 6 \<or> d = 7 \<or> d = 8 \<or> d = 9"
    by presburger
  then show ?thesis by (elim disjE) (simp_all add: digit_char_def)
qed

lemma decimal_value_snoc: "decimal_value (ds @ [c]) = 10 * decimal_value ds + (of_char c - 48)"
  by (simp add: decimal_value_def)

lemma dec_digits_value: "decimal_value (dec_digits n) = n"
proof (induction n rule: dec_digits.induct)
  case (1 n)
  show ?case
  proof (cases "n < 10")
    case True
    then show ?thesis by (simp add: dec_digits_small decimal_value_def digit_char_code)
  next
    case False
    then have "decimal_value (dec_digits n) = 10 * (n div 10) + n mod 10"
      using 1 [OF False] by (simp add: dec_digits_step decimal_value_snoc digit_char_code)
    then show ?thesis by simp
  qed
qed

lemma fmt_ld_sdiv:
  "fmt_ld (v sdiv 1000) = (if v \<le> - 1000 then ''-'' else []) @ dec_digits (nat (\<bar>v\<bar> div 1000))"
proof -
  consider "v \<le> - 1000" | "- 1000 < v" "v < 0" | "0 \<le> v" by linarith
  then show ?thesis
  proof cases
    case 1
    then have "\<bar>v\<bar> div 1000 \<ge> 1" by (simp add: zdiv_mono1 [of 1000 "\<bar>v\<bar>" 1000, simplified])
    then show ?thesis using 1 by (simp add: fmt_ld_def sdiv_1000 sgn_if)
  next
    case 2
    then have "\<bar>v\<bar> div 1000 = 0" by simp
    then show ?thesis using 2 by (simp add: fmt_ld_def sdiv_1000)
  next
    case 3
    then have "0 \<le> v div 1000" by (simp add: pos_imp_zdiv_nonneg_iff)
    then show ?thesis using 3 by (simp add: fmt_ld_def sdiv_1000 sgn_if)
  qed
qed

lemma example_sensors_nth: "i < 16 \<Longrightarrow> example_sensors ! i = example_sensor"
  and example_sensors_length: "length example_sensors = 16"
  by (simp_all add: example_sensors_def LUNIX_SENSOR_CNT_def)

lemma example_sensor_eq:
  "example_sensor =
     \<lparr>msr_batt = \<lparr>magic = LUNIX_MSR_MAGIC, last_update = 1700000000, values0 = 512\<rparr>,
      msr_temp = \<lparr>magic = LUNIX_MSR_MAGIC, last_update = 1700000000, values0 = 500\<rparr>,
      msr_light = \<lparr>magic = LUNIX_MSR_MAGIC, last_update = 1700000000, values0 = 300\<rparr>,
      lock = False, wq = 1\<rparr>"
  by (simp add: example_sensor_def lunix_sensor_update_def lunix_sensor_init_def Let_def
        spin_lock_def spin_unlock_def wake_up_interruptible_def store_msr_def
        BATT_def TEMP_def LIGHT_def)

text \<open>
  Claim C3. When a refresh succeeds, the text it leaves in the session's buffer is the
  converted value \<open>v\<close> (the entry of the lookup table of the session's measurement at the
  sensor's raw value) printed as \<^verbatim>\<open>"%ld.%03ld\n"\<close>: the integer part is \<open>v / 1000\<close>
  truncated toward zero, that is the decimal digits of \<open>\<bar>v\<bar> div 1000\<close> after a minus sign
  when \<open>v \<le> -1000\<close>; then a dot; then \<open>abs (v % 1000)\<close>, which is \<open>\<bar>v\<bar> mod 1000\<close>, as
  exactly three decimal digits; then a newline. \<^verbatim>\<open>buf_lim\<close> is the length of that text.
  The text is whole when \<^verbatim>\<open>snprintf\<close> did not have to cut it, that is when its return
  value is below \<^verbatim>\<open>LUNIX_CHRDEV_BUFSZ\<close>.
\<close>

theorem refresh_renders_value:
  assumes "lunix_chrdev_state_update tabs bufsz sens st = Some (0, st')"
    and "buf_lim st' < int bufsz"
  shows "\<exists>m v. msr_data sens (type st) = Some m
           \<and> table_at ((if type st = BATT then lookup_voltage else if type st = TEMP
                         then lookup_temperature else lookup_light) tabs) (values0 m) = Some v
           \<and> buf_data st' =
               (if v \<le> - 1000 then ''-'' else []) @ dec_digits (nat (\<bar>v\<bar> div 1000)) @ ''.'' @
               [digit_char (nat (\<bar>v\<bar> mod 1000) div 100),
                digit_char (nat (\<bar>v\<bar> mod 1000) div 10 mod 10),
                digit_char (nat (\<bar>v\<bar> mod 1000) mod 10)] @ [CHR 0x0A]
           \<and> decimal_value (dec_digits (nat (\<bar>v\<bar> div 1000))) = nat (\<bar>v\<bar> div 1000)
           \<and> decimal_value [digit_char (nat (\<bar>v\<bar> mod 1000) div 100),
                digit_char (nat (\<bar>v\<bar> mod 1000) div 10 mod 10),
                digit_char (nat (\<bar>v\<bar> mod 1000) mod 10)] = nat (\<bar>v\<bar> mod 1000)
           \<and> buf_lim st' = int (length (buf_data st'))"
proof -
  from assms(1) obtain m where m: "msr_data sens (type st) = Some m"
    by (auto simp: lunix_chrdev_state_update_def lunix_chrdev_state_needs_refresh_def
          split: option.splits)
  define tab where "tab = (if type st = BATT then lookup_voltage else if type st = TEMP
                         then lookup_temperature else lookup_light) tabs"
  have EA: "(0::int) \<noteq> - EAGAIN" "(0::int) \<noteq> - EINVAL" by (simp_all add: EAGAIN_def EINVAL_def)
  from assms(1) m EA obtain v where v: "table_at tab (values0 m) = Some v"
    and st': "st' = st\<lparr>buf_timestamp := last_update m,
                buf_data := fst (snprintf bufsz (fmt_value (v sdiv 1000) \<bar>v smod 1000\<bar>)),
                buf_lim := snd (snprintf bufsz (fmt_value (v sdiv 1000) \<bar>v smod 1000\<bar>))\<rparr>"
    by (auto simp: lunix_chrdev_state_update_def lunix_chrdev_state_needs_refresh_def Let_def
          tab_def split: option.splits bool.splits if_splits prod.splits)
  define rendered where "rendered = fmt_value (v sdiv 1000) \<bar>v smod 1000\<bar>"
  have fit: "length rendered < bufsz"
    using assms(2) st' by (simp add: snprintf_def rendered_def)
  have data: "buf_data st' = rendered" and lim: "buf_lim st' = int (length rendered)"
    using st' fit by (simp_all add: snprintf_def rendered_def)
  define f where "f = nat (\<bar>v\<bar> mod 1000)"
  have f: "f < 1000" by (simp add: f_def nat_less_iff)
  have "0 \<le> \<bar>v\<bar> mod 1000" "\<bar>v\<bar> mod 1000 < 1000" by simp_all
  from fmt_03ld_digits [OF this]
  have r: "rendered = (if v \<le> - 1000 then ''-'' else []) @ dec_digits (nat (\<bar>v\<bar> div 1000)) @ ''.'' @
               [digit_char (f div 100), digit_char (f div 10 mod 10), digit_char (f mod 10)]
               @ [CHR 0x0A]"
    by (simp add: rendered_def fmt_value_def fmt_ld_sdiv smod_1000 f_def)
  have "f div 100 < 10" "f div 10 mod 10 < 10" "f mod 10 < 10" using f by simp_all
  then have "decimal_value [digit_char (f div 100), digit_char (f div 10 mod 10), digit_char (f mod 10)]
               = 10 * (10 * (f div 100) + f div 10 mod 10) + f mod 10"
    by (simp add: decimal_value_def digit_char_code)
  also have "\<dots> = 10 * (f div 10) + f mod 10"
    by (simp add: div_mult2_eq [of f 10 10, simplified])
  also have "\<dots> = f" by simp
  finally have d: "decimal_value [digit_char (f div 100), digit_char (f div 10 mod 10),
                     digit_char (f mod 10)] = f" .
  have "msr_data sens (type st) = Some m
           \<and> table_at tab (values0 m) = Some v
           \<and> buf_data st' =
               (if v \<le> - 1000 then ''-'' else []) @ dec_digits (nat (\<bar>v\<bar> div 1000)) @ ''.'' @
               [digit_char (f div 100), digit_char (f div 10 mod 10), digit_char (f mod 10)]
               @ [CHR 0x0A]
           \<and> decimal_value (dec_digits (nat (\<bar>v\<bar> div 1000))) = nat (\<bar>v\<bar> div 1000)
           \<and> decimal_value [digit_char (f div 100), digit_char (f div 10 mod 10),
                digit_char (f mod 10)] = f
           \<and> buf_lim st' = int (length (buf_data st'))"
    using m v data lim r d dec_digits_value [of "nat (\<bar>v\<bar> div 1000)"]
    by (simp only: simp_thms)
  then show ?thesis unfolding tab_def f_def by (intro exI [of _ m] exI [of _ v])
qed

lemma example_session_open:
  "minor_num mod 8 < 3 \<Longrightarrow> lunix_chrdev_open 0 (Some []) minor_num = Inr (example_session minor_num)"
  by (simp add: lunix_chrdev_open_def example_session_def Let_def N_LUNIX_MSR_def)

lemma example_fmt: "fmt_value (- 12) 345 = ''-12.345'' @ [CHR 0x0A]"
  by (simp add: fmt_value_def fmt_ld_def fmt_03ld_def dec_digits.simps digit_char_def)

lemma example_refresh_temp:
  "lunix_chrdev_state_update example_tables 20 example_sensor (example_session 9) =
     Some (0, \<lparr>type = 1, sensor = 1, buf_lim = 8, buf_data = ''-12.345'' @ [CHR 0x0A],
               buf_timestamp = 1700000000\<rparr>)"
  by (simp add: lunix_chrdev_state_update_def lunix_chrdev_state_needs_refresh_def
        example_sensor_eq example_session_def example_tables_def msr_data_def table_at_def
        BATT_def TEMP_def LIGHT_def snprintf_def example_fmt Let_def)

text \<open>
  Witness for C3: the temperature session of minor number 9 on the example sensor, whose
  table entry is -12345, renders \<^verbatim>\<open>"-12.345\n"\<close>.
\<close>

theorem refresh_renders_value_witness:
  "lunix_chrdev_state_update example_tables 20 example_sensor (example_session 9) =
     Some (0, \<lparr>type = 1, sensor = 1, buf_lim = 8, buf_data = ''-12.345'' @ [CHR 0x0A],
               buf_timestamp = 1700000000\<rparr>)
   \<and> (8::int) < int (20::nat)
   \<and> (\<exists>m v. msr_data example_sensor (type (example_session 9)) = Some m
           \<and> table_at ((if type (example_session 9) = BATT then lookup_voltage
                         else if type (example_session 9) = TEMP
                         then lookup_temperature else lookup_light) example_tables) (values0 m) = Some v
           \<and> ''-12.345'' @ [CHR 0x0A] =
               (if v \<le> - 1000 then ''-'' else []) @ dec_digits (nat (\<bar>v\<bar> div 1000)) @ ''.'' @
               [digit_char (nat (\<bar>v\<bar> mod 1000) div 100),
                digit_char (nat (\<bar>v\<bar> mod 1000) div 10 mod 10),
                digit_char (nat (\<bar>v\<bar> mod 1000) mod 10)] @ [CHR 0x0A]
           \<and> decimal_value (dec_digits (nat (\<bar>v\<bar> div 1000))) = nat (\<bar>v\<bar> div 1000)
           \<and> decimal_value [digit_char (nat (\<bar>v\<bar> mod 1000) div 100),
                digit_char (nat (\<bar>v\<bar> mod 1000) div 10 mod 10),
                digit_char (nat (\<bar>v\<bar> mod 1000) mod 10)] = nat (\<bar>v\<bar> mod 1000))"
proof -
  have fit: "buf_lim \<lparr>type = 1, sensor = 1, buf_lim = 8, buf_data = ''-12.345'' @ [CHR 0x0A],
               buf_timestamp = 1700000000\<rparr> < int 20"
    by simp
  from refresh_renders_value [OF example_refresh_temp fit]
  have "\<exists>m v. msr_data example_sensor (type (example_session 9)) = Some m
           \<and> table_at ((if type (example_session 9) = BATT then lookup_voltage
                         else if type (example_session 9) = TEMP
                         then lookup_temperature else lookup_light) example_tables) (values0 m) = Some v
           \<and> ''-12.345'' @ [CHR 0x0A] =
               (if v \<le> - 1000 then ''-'' else []) @ dec_digits (nat (\<bar>v\<bar> div 1000)) @ ''.'' @
               [digit_char (nat (\<bar>v\<bar> mod 1000) div 100),
                digit_char (nat (\<bar>v\<bar> mod 1000) div 10 mod 10),
                digit_char (nat (\<bar>v\<bar> mod 1000) mod 10)] @ [CHR 0x0A]
           \<and> decimal_value (dec_digits (nat (\<bar>v\<bar> div 1000))) = nat (\<bar>v\<bar> div 1000)
           \<and> decimal_value [digit_char (nat (\<bar>v\<bar> mod 1000) div 100),
                digit_char (nat (\<bar>v\<bar> mod 1000) div 10 mod 10),
                digit_char (nat (\<bar>v\<bar> mod 1000) mod 10)] = nat (\<bar>v\<bar> mod 1000)"
    by (elim exE conjE, intro exI conjI) (simp_all only: lunix_chrdev_state_struct.simps)
  then show ?thesis using example_refresh_temp by simp
qed

subsection \<open>Measurement type of a session\<close>

text \<open>
  Claim C10. A session state that exists (created by a successful open, and whatever
  refreshes and reads followed) has a measurement type below \<^verbatim>\<open>N_LUNIX_MSR\<close>; a
  refresh on it returns 0 or \<^verbatim>\<open>-EAGAIN\<close>, never \<^verbatim>\<open>-EINVAL\<close>, and leaves a session
  state of the same kind; and on a sensor whose raw values are 16-bit samples it does
  return.
\<close>

theorem session_refresh_never_einval:
  assumes "session st"
  shows "type st < N_LUNIX_MSR
     \<and> (\<forall>tabs bufsz sens ret st'.
           lunix_chrdev_state_update tabs bufsz sens st = Some (ret, st')
             \<longrightarrow> (ret = 0 \<or> ret = - EAGAIN) \<and> ret \<noteq> - EINVAL \<and> session st')
     \<and> (\<forall>tabs bufsz sens. raw_in_range sens
             \<longrightarrow> (\<exists>ret st'. lunix_chrdev_state_update tabs bufsz sens st = Some (ret, st')))"
proof -
  have t: "type st < N_LUNIX_MSR" using assms by (rule session_type)
  have "(ret = 0 \<or> ret = - EAGAIN) \<and> ret \<noteq> - EINVAL \<and> session st'"
    if "lunix_chrdev_state_update tabs bufsz sens st = Some (ret, st')"
    for tabs bufsz sens ret st'
    using state_update_cases [OF that] session.refreshed [OF assms that]
    by (auto simp: EAGAIN_def EINVAL_def)
  moreover have "\<exists>ret st'. lunix_chrdev_state_update tabs bufsz sens st = Some (ret, st')"
    if "raw_in_range sens" for tabs bufsz sens
    using state_update_defined [OF t that] .
  ultimately show ?thesis using t by blast
qed

lemma example_sensor_in_range: "raw_in_range example_sensor"
  by (simp add: raw_in_range_def example_sensor_eq)

text \<open>Witness for C10: the session opened for minor number 9, refreshed on the example sensor.\<close>

theorem session_refresh_never_einval_witness:
  "session (example_session 9) \<and> type (example_session 9) < N_LUNIX_MSR
   \<and> raw_in_range example_sensor
   \<and> (\<exists>ret st'. lunix_chrdev_state_update example_tables 20 example_sensor (example_session 9)
                    = Some (ret, st') \<and> (ret = 0 \<or> ret = - EAGAIN) \<and> ret \<noteq> - EINVAL)"
proof -
  have s: "session (example_session 9)"
    by (rule session.opened [of 0 "Some []" 9]) (simp add: example_session_open)
  from session_refresh_never_einval [OF s] example_sensor_in_range s
  show ?thesis by blast
qed

subsection \<open>What open checks\<close>

lemma example_read_temp:
  "lunix_chrdev_read example_tables 20
     \<lparr>down_intr = False, sensors0 = example_sensors, waits = [], copy_fails = fails\<rparr>
     (example_session 9) 100 0 =
   (if fails then
      Done (- EFAULT, \<lparr>type = 1, sensor = 1, buf_lim = 8, buf_data = ''-12.345'' @ [CHR 0x0A],
               buf_timestamp = 1700000000\<rparr>, 0, [])
    else
      Done (8, \<lparr>type = 1, sensor = 1, buf_lim = 8, buf_data = ''-12.345'' @ [CHR 0x0A],
               buf_timestamp = 1700000000\<rparr>, 0, ''-12.345'' @ [CHR 0x0A]))"
proof -
  have s: "sensor (example_session 9) = 1" by (simp add: example_session_def)
  have "refresh_wait_loop example_tables 20 example_sensors [] (example_session 9) =
          Go_on \<lparr>type = 1, sensor = 1, buf_lim = 8, buf_data = ''-12.345'' @ [CHR 0x0A],
               buf_timestamp = 1700000000\<rparr>"
    by (subst refresh_wait_loop.simps)
       (simp add: s example_refresh_temp EAGAIN_def example_sensors_nth example_sensors_length)
  then show ?thesis
    by (simp add: lunix_chrdev_read_def Let_def)
qed

lemma minor_cnt_le: "unat (lunix_minor_cnt sensor_cnt) \<le> 8 * sensor_cnt"
proof -
  have "unat (lunix_minor_cnt sensor_cnt) = (8 * sensor_cnt) mod 2 ^ 32"
    by (simp add: lunix_minor_cnt_def push_bit_eq_mult unat_word_ariths unat_of_nat mod_mult_right_eq
          mult.commute)
  then show ?thesis by simp
qed

lemma minor_cnt_small: "sensor_cnt < 2 ^ 29 \<Longrightarrow> unat (lunix_minor_cnt sensor_cnt) = 8 * sensor_cnt"
  by (simp add: lunix_minor_cnt_def push_bit_eq_mult unat_word_ariths unat_of_nat mod_mult_right_eq
        mult.commute)

lemma chrdev_open_cases:
  assumes "chrdev_open sensor_cnt nso kmalloc minor_num = Inr st"
  shows "lunix_chrdev_open nso kmalloc minor_num = Inr st \<and> minor_num div 8 < sensor_cnt"
proof -
  have r: "minor_num < unat (lunix_minor_cnt sensor_cnt)"
    and o: "lunix_chrdev_open nso kmalloc minor_num = Inr st"
    using assms by (auto simp: chrdev_open_def split: if_splits)
  from r minor_cnt_le [of sensor_cnt] have "minor_num < 8 * sensor_cnt" by simp
  then have "minor_num div 8 < sensor_cnt" by (simp add: div_less_iff_less_mult mult.commute)
  with o show ?thesis by simp
qed

text \<open>
  Claim C1. An open whose minor number names an invalid measurement kind
  (\<open>minor mod 8 \<ge> N_LUNIX_MSR\<close>) or an invalid sensor index (\<open>minor div 8\<close> not below the
  number of sensors) fails and creates no session: the kind is refused by
  \<^verbatim>\<open>lunix_chrdev_open\<close>, and a minor number with an invalid index lies outside the range
  \<^verbatim>\<open>lunix_chrdev_init\<close> registered, so the open fails before the driver is entered. Every
  session an open creates has the kind and the index of its minor number, both valid. A
  later read on a session keeps both and never returns \<^verbatim>\<open>-EINVAL\<close>. With fewer than
  \<open>2 ^ 29\<close> sensors (so that the shift does not wrap) every valid index and kind is
  opened.
\<close>

theorem open_rejects_invalid_kind_and_index:
  "(N_LUNIX_MSR \<le> minor_num mod 8 \<or> sensor_cnt \<le> minor_num div 8 \<longrightarrow>
      isl (chrdev_open sensor_cnt nso kmalloc minor_num))
   \<and> (\<forall>st. chrdev_open sensor_cnt nso kmalloc minor_num = Inr st \<longrightarrow>
         type st = minor_num mod 8 \<and> type st < N_LUNIX_MSR
         \<and> sensor st = minor_num div 8 \<and> sensor st < sensor_cnt \<and> session st)
   \<and> (\<forall>st tabs bufsz env cnt f_pos ret st' f_pos' out.
         session st \<and> lunix_chrdev_read tabs bufsz env st cnt f_pos = Done (ret, st', f_pos', out)
           \<longrightarrow> ret \<noteq> - EINVAL \<and> type st' = type st \<and> sensor st' = sensor st \<and> session st')
   \<and> (sensor_cnt < 2 ^ 29 \<and> 0 \<le> nso \<and> k < N_LUNIX_MSR \<and> n < sensor_cnt \<longrightarrow>
        chrdev_open sensor_cnt nso (Some garbage) (8 * n + k) =
          Inr \<lparr>type = k, sensor = n, buf_lim = 0, buf_data = garbage, buf_timestamp = 0\<rparr>)"
proof -
  have a: "isl (chrdev_open sensor_cnt nso kmalloc minor_num)"
    if "N_LUNIX_MSR \<le> minor_num mod 8 \<or> sensor_cnt \<le> minor_num div 8"
  proof (cases "chrdev_open sensor_cnt nso kmalloc minor_num")
    case (Inl e)
    then show ?thesis by simp
  next
    case (Inr st)
    from chrdev_open_cases [OF Inr] open_cases [of nso kmalloc minor_num st] that
    show ?thesis by auto
  qed
  have b: "type st = minor_num mod 8 \<and> type st < N_LUNIX_MSR
         \<and> sensor st = minor_num div 8 \<and> sensor st < sensor_cnt \<and> session st"
    if "chrdev_open sensor_cnt nso kmalloc minor_num = Inr st" for st
    using chrdev_open_cases [OF that] open_cases [of nso kmalloc minor_num st]
      session.opened [of nso kmalloc minor_num st]
    by auto
  have c: "ret \<noteq> - EINVAL \<and> type st' = type st \<and> sensor st' = sensor st \<and> session st'"
    if "session st" "lunix_chrdev_read tabs bufsz env st cnt f_pos = Done (ret, st', f_pos', out)"
    for st tabs bufsz env cnt f_pos ret st' f_pos' out
    using read_outcomes [OF that(2)] session.was_read [OF that]
    by (auto simp: EINVAL_def ERESTARTSYS_def EFAULT_def)
  have d: "chrdev_open sensor_cnt nso (Some garbage) (8 * n + k) =
          Inr \<lparr>type = k, sensor = n, buf_lim = 0, buf_data = garbage, buf_timestamp = 0\<rparr>"
    if "sensor_cnt < 2 ^ 29" "0 \<le> nso" "k < N_LUNIX_MSR" "n < sensor_cnt"
  proof -
    have "8 * n + k < 8 * sensor_cnt" using that(3,4) by (simp add: N_LUNIX_MSR_def)
    then show ?thesis using that
      by (auto simp: chrdev_open_def minor_cnt_small lunix_chrdev_open_def Let_def N_LUNIX_MSR_def)
  qed
  show ?thesis using a b c d by blast
qed

text \<open>
  Witness for C1, with 16 sensors: minor number 11 (kind 3) and minor number 128 (index 16)
  are refused; minor number 9 opens the session of kind 1 on sensor 1, and a read on it
  returns 8, not \<^verbatim>\<open>-EINVAL\<close>.
\<close>

theorem open_rejects_invalid_kind_and_index_witness:
  "N_LUNIX_MSR \<le> 11 mod 8 \<and> chrdev_open LUNIX_SENSOR_CNT 0 (Some []) 11 = Inl (- EINVAL)
   \<and> LUNIX_SENSOR_CNT \<le> 128 div 8 \<and> chrdev_open LUNIX_SENSOR_CNT 0 (Some []) 128 = Inl (- ENXIO)
   \<and> LUNIX_SENSOR_CNT < 2 ^ 29 \<and> (1::nat) < N_LUNIX_MSR \<and> 1 < LUNIX_SENSOR_CNT
   \<and> chrdev_open LUNIX_SENSOR_CNT 0 (Some []) (8 * 1 + 1) =
        Inr \<lparr>type = 1, sensor = 1, buf_lim = 0, buf_data = [], buf_timestamp = 0\<rparr>
   \<and> session (example_session 9)
   \<and> lunix_chrdev_read example_tables 20
        \<lparr>down_intr = False, sensors0 = example_sensors, waits = [], copy_fails = False\<rparr>
        (example_session 9) 100 0 =
      Done (8, \<lparr>type = 1, sensor = 1, buf_lim = 8, buf_data = ''-12.345'' @ [CHR 0x0A],
               buf_timestamp = 1700000000\<rparr>, 0, ''-12.345'' @ [CHR 0x0A])
   \<and> (8::int) \<noteq> - EINVAL"
proof -
  have m: "unat (lunix_minor_cnt LUNIX_SENSOR_CNT) = 128"
    by (simp add: lunix_minor_cnt_def LUNIX_SENSOR_CNT_def)
  have o: "chrdev_open LUNIX_SENSOR_CNT 0 (Some []) 11 = Inl (- EINVAL)"
    "chrdev_open LUNIX_SENSOR_CNT 0 (Some []) 128 = Inl (- ENXIO)"
    "chrdev_open LUNIX_SENSOR_CNT 0 (Some []) 9 = Inr (example_session 9)"
    by (simp_all add: chrdev_open_def m lunix_chrdev_open_def Let_def N_LUNIX_MSR_def
          example_session_def)
  note t = open_rejects_invalid_kind_and_index [where sensor_cnt = LUNIX_SENSOR_CNT and nso = 0
      and kmalloc = "Some []" and garbage = "[]" and k = 1 and n = 1]
  from t [where minor_num = 9] o(3) have s: "session (example_session 9)" by blast
  have r: "lunix_chrdev_read example_tables 20
        \<lparr>down_intr = False, sensors0 = example_sensors, waits = [], copy_fails = False\<rparr>
        (example_session 9) 100 0 =
      Done (8, \<lparr>type = 1, sensor = 1, buf_lim = 8, buf_data = ''-12.345'' @ [CHR 0x0A],
               buf_timestamp = 1700000000\<rparr>, 0, ''-12.345'' @ [CHR 0x0A])"
    by (simp add: example_read_temp)
  from t [where minor_num = 9] s r have e: "(8::int) \<noteq> - EINVAL" by blast
  have i: "N_LUNIX_MSR \<le> 11 mod 8" "LUNIX_SENSOR_CNT \<le> 128 div 8" "LUNIX_SENSOR_CNT < 2 ^ 29"
    "(1::nat) < N_LUNIX_MSR" "1 < LUNIX_SENSOR_CNT"
    by (simp_all add: N_LUNIX_MSR_def LUNIX_SENSOR_CNT_def)
  from t [where minor_num = 9] i
  have "chrdev_open LUNIX_SENSOR_CNT 0 (Some []) (8 * 1 + 1) =
        Inr \<lparr>type = 1, sensor = 1, buf_lim = 0, buf_data = [], buf_timestamp = 0\<rparr>"
    by simp
  with o s r e i show ?thesis by simp
qed

subsection \<open>Outcomes of read\<close>

text \<open>
  Counterexample to C2 as stated: a read on the opened session of minor number 9, with
  fresh data on the sensor, returns \<^verbatim>\<open>-EFAULT\<close> (-14) when \<^verbatim>\<open>copy_to_user\<close> fails:
  an error that is neither a byte count, nor 0, nor \<^verbatim>\<open>-ERESTARTSYS\<close> (-512).
\<close>

theorem read_efault_counterexample:
  "lunix_chrdev_read example_tables 20
     \<lparr>down_intr = False, sensors0 = example_sensors, waits = [], copy_fails = True\<rparr>
     (example_session 9) 100 0 =
      Done (- 14, \<lparr>type = 1, sensor = 1, buf_lim = 8, buf_data = ''-12.345'' @ [CHR 0x0A],
               buf_timestamp = 1700000000\<rparr>, 0, [])
   \<and> EFAULT = 14 \<and> ERESTARTSYS = 512"
  by (simp add: example_read_temp EFAULT_def ERESTARTSYS_def)

text \<open>
  Claim C2, amended. A read that returns has one of four outcomes: a positive number of
  bytes, which is the number of bytes delivered and at most the count asked for; 0 with
  no byte delivered (end of data); \<^verbatim>\<open>-ERESTARTSYS\<close> (interrupted); or \<^verbatim>\<open>-EFAULT\<close>,
  and only when \<^verbatim>\<open>copy_to_user\<close> failed.
\<close>

theorem read_outcomes_with_efault:
  assumes "lunix_chrdev_read tabs bufsz env st cnt f_pos = Done (ret, st', f_pos', out)"
  shows "(0 < ret \<and> ret = int (length out) \<and> ret \<le> int cnt)
         \<or> (ret = 0 \<and> out = [])
         \<or> (ret = - ERESTARTSYS \<and> out = [])
         \<or> (ret = - EFAULT \<and> copy_fails env \<and> out = [])"
  using read_outcomes [OF assms] by blast

text \<open>Witness for the amended C2: the same read when the copy succeeds delivers all 8 bytes.\<close>

theorem read_outcomes_with_efault_witness:
  "lunix_chrdev_read example_tables 20
     \<lparr>down_intr = False, sensors0 = example_sensors, waits = [], copy_fails = False\<rparr>
     (example_session 9) 100 0 =
      Done (8, \<lparr>type = 1, sensor = 1, buf_lim = 8, buf_data = ''-12.345'' @ [CHR 0x0A],
               buf_timestamp = 1700000000\<rparr>, 0, ''-12.345'' @ [CHR 0x0A])
   \<and> (0::int) < 8 \<and> (8::int) = int (length (''-12.345'' @ [CHR 0x0A])) \<and> (8::int) \<le> int 100"
  using read_outcomes_with_efault [where tabs = example_tables and bufsz = 20
      and env = "\<lparr>down_intr = False, sensors0 = example_sensors, waits = [], copy_fails = False\<rparr>"
      and st = "example_session 9" and cnt = 100 and f_pos = 0 and ret = 8
      and st' = "\<lparr>type = 1, sensor = 1, buf_lim = 8, buf_data = ''-12.345'' @ [CHR 0x0A],
               buf_timestamp = 1700000000\<rparr>" and f_pos' = 0 and out = "''-12.345'' @ [CHR 0x0A]"]
  by (simp add: example_read_temp)

subsection \<open>The battery sample 512\<close>

lemma uint16_to_batt_div: "uint16_to_batt v = (1223 * 1023) div int v"
proof (cases "v = 0")
  case True
  then show ?thesis by (simp add: uint16_to_batt_def)
next
  case False
  have "(1223 / 1000) * (1023 / of_nat v) * 1000 = (of_int (1223 * 1023) / of_int (int v) :: rat)"
    by simp
  then show ?thesis using False
    unfolding uint16_to_batt_def Let_def
    by (simp only: floor_divide_of_int_eq if_True simp_thms)
qed

lemma batt_512: "uint16_to_batt 512 = 2443"
  by (simp add: uint16_to_batt_div)

lemma batt_512_margin:
  fixes x :: rat
  assumes "\<bar>x - (1223 / 1000) * (1023 / 512) * 1000\<bar> \<le> 1 / 4"
  shows "\<lfloor>x\<rfloor> = 2443"
proof -
  have "2443 \<le> x" "x < 2444" using assms by (simp_all add: abs_le_iff field_simps)
  then show ?thesis by (simp add: floor_unique)
qed

lemma batt_round_512: "batt_millivolts_rounded 512 = 2444"
proof -
  have "((1223 / 1000) * 1023 / of_nat 512 * 1000 :: rat) + 1 / 2 = of_int 1251385 / of_int 512"
    by simp
  then have "batt_millivolts_rounded 512 = 1251385 div 512"
    unfolding batt_millivolts_rounded_def round_def
    by (simp only: floor_divide_of_int_eq)
  then show ?thesis by simp
qed

text \<open>
  Counterexample to C9 as stated: 1.223 \<times> 1023 / 512 \<times> 1000 is 2443.61..., so rounding
  it gives 2444, not 2443; the conversion gives 2443 because it drops the fraction.
\<close>

theorem battery_rounding_counterexample:
  "batt_millivolts_rounded 512 = 2444 \<and> batt_millivolts_rounded 512 \<noteq> 2443
   \<and> uint16_to_batt 512 = 2443"
  by (simp add: batt_round_512 batt_512)

lemma fmt_2443: "fmt_value 2 443 = ''2.443'' @ [CHR 0x0A]"
  by (simp add: fmt_value_def fmt_ld_def fmt_03ld_def dec_digits.simps digit_char_def)

text \<open>
  Claim C9, amended. For the raw battery sample 512 the conversion gives
  \<open>\<lfloor>1.223 \<times> 1023 / 512 \<times> 1000\<rfloor> = 2443\<close> (the fraction is dropped, not rounded), and
  so does every computation of that product that errs by at most 1/4, as the floating-point
  one does. With that entry in the voltage table, a battery session whose cache is stale
  is refreshed to the text \<^verbatim>\<open>"2.443\n"\<close>, and a read of at least 6 bytes from offset
  0 delivers exactly that text.
\<close>

theorem battery_sample_512:
  assumes "lookup_voltage tabs 512 = uint16_to_batt 512"
    and "type st = BATT" and "sensor st < length sensors"
    and "values0 (msr_batt (sensors ! sensor st)) = 512"
    and "buf_timestamp st \<noteq> last_update (msr_batt (sensors ! sensor st))"
    and "6 < bufsz" and "6 \<le> cnt"
  shows "uint16_to_batt 512 = 2443
     \<and> (\<forall>x::rat. \<bar>x - (1223 / 1000) * (1023 / 512) * 1000\<bar> \<le> 1 / 4 \<longrightarrow> \<lfloor>x\<rfloor> = 2443)
     \<and> lunix_chrdev_state_update tabs bufsz (sensors ! sensor st) st =
         Some (0, st\<lparr>buf_timestamp := last_update (msr_batt (sensors ! sensor st)),
                     buf_data := ''2.443'' @ [CHR 0x0A], buf_lim := 6\<rparr>)
     \<and> lunix_chrdev_read tabs bufsz
          \<lparr>down_intr = False, sensors0 = sensors, waits = ws, copy_fails = False\<rparr> st cnt 0 =
         Done (6, st\<lparr>buf_timestamp := last_update (msr_batt (sensors ! sensor st)),
                     buf_data := ''2.443'' @ [CHR 0x0A], buf_lim := 6\<rparr>, 0,
               ''2.443'' @ [CHR 0x0A])"
proof -
  let ?st' = "st\<lparr>buf_timestamp := last_update (msr_batt (sensors ! sensor st)),
                     buf_data := ''2.443'' @ [CHR 0x0A], buf_lim := 6\<rparr>"
  have v: "lookup_voltage tabs 512 = 2443" using assms(1) by (simp add: batt_512)
  have u: "lunix_chrdev_state_update tabs bufsz (sensors ! sensor st) st = Some (0, ?st')"
    using assms(2,4,5,6) v
    by (simp add: lunix_chrdev_state_update_def lunix_chrdev_state_needs_refresh_def
          msr_data_def table_at_def Let_def snprintf_def fmt_2443 BATT_def)
  have "refresh_wait_loop tabs bufsz sensors ws st = Go_on ?st'"
    by (subst refresh_wait_loop.simps) (simp add: u assms(3) EAGAIN_def)
  then have "lunix_chrdev_read tabs bufsz
          \<lparr>down_intr = False, sensors0 = sensors, waits = ws, copy_fails = False\<rparr> st cnt 0 =
         Done (6, ?st', 0, ''2.443'' @ [CHR 0x0A])"
    using assms(7) by (simp add: lunix_chrdev_read_def Let_def)
  with u show ?thesis using batt_512_margin by (simp add: batt_512)
qed

text \<open>Witness for the amended C9: the battery session of minor number 8 on the example sensors.\<close>

theorem battery_sample_512_witness:
  "lookup_voltage example_tables 512 = uint16_to_batt 512
   \<and> type (example_session 8) = BATT \<and> sensor (example_session 8) < length example_sensors
   \<and> values0 (msr_batt (example_sensors ! sensor (example_session 8))) = 512
   \<and> buf_timestamp (example_session 8) \<noteq> last_update (msr_batt (example_sensors ! sensor (example_session 8)))
   \<and> (6::nat) < 20 \<and> (6::nat) \<le> 6
   \<and> lunix_chrdev_read example_tables 20
          \<lparr>down_intr = False, sensors0 = example_sensors, waits = [], copy_fails = False\<rparr>
          (example_session 8) 6 0 =
         Done (6, \<lparr>type = 0, sensor = 1, buf_lim = 6, buf_data = ''2.443'' @ [CHR 0x0A],
                    buf_timestamp = 1700000000\<rparr>, 0, ''2.443'' @ [CHR 0x0A])"
proof -
  have h: "lookup_voltage example_tables 512 = uint16_to_batt 512"
    "type (example_session 8) = BATT" "sensor (example_session 8) < length example_sensors"
    "values0 (msr_batt (example_sensors ! sensor (example_session 8))) = 512"
    "buf_timestamp (example_session 8) \<noteq> last_update (msr_batt (example_sensors ! sensor (example_session 8)))"
    "(6::nat) < 20" "(6::nat) \<le> 6"
    by (simp_all add: example_tables_def example_session_def BATT_def example_sensor_eq
          example_sensors_nth example_sensors_length)
  from battery_sample_512 [OF h, of "[]"] h show ?thesis
    by (simp add: example_session_def example_sensor_eq example_sensors_nth)
qed

section \<open>The sensors\<close>

lemma lunix_sensor_update_eq:
  "lunix_sensor_update (s, tr) batt temp light now =
     (s\<lparr>msr_batt := \<lparr>magic = LUNIX_MSR_MAGIC, last_update = ucast now, values0 = ucast batt\<rparr>,
        msr_temp := \<lparr>magic = LUNIX_MSR_MAGIC, last_update = ucast now, values0 = ucast temp\<rparr>,
        msr_light := \<lparr>magic = LUNIX_MSR_MAGIC, last_update = ucast now, values0 = ucast light\<rparr>,
        lock := False, wq := wq s + 1\<rparr>,
      tr @ [Acquire, Store BATT, Store TEMP, Store LIGHT, Store BATT, Store TEMP, Store LIGHT,
            Store LIGHT, Store TEMP, Store BATT, Release, Wake])"
  by (simp add: lunix_sensor_update_def Let_def spin_lock_def spin_unlock_def
        wake_up_interruptible_def store_msr_def BATT_def TEMP_def LIGHT_def)

lemma sensor_updates_stamps:
  "map (\<lambda>w. last_update (msr_batt (fst w))) (sensor_updates w us) = map clock_of us
   \<and> map (\<lambda>w. last_update (msr_temp (fst w))) (sensor_updates w us) = map clock_of us
   \<and> map (\<lambda>w. last_update (msr_light (fst w))) (sensor_updates w us) = map clock_of us"
proof (induction us arbitrary: w)
  case Nil
  show ?case by simp
next
  case (Cons u us)
  obtain b t l n where u: "u = (b, t, l, n)" by (cases u)
  obtain s tr where w: "w = (s, tr)" by (cases w)
  show ?case using Cons [of "lunix_sensor_update (s, tr) b t l n"]
    by (simp add: u w Let_def clock_of_def lunix_sensor_update_eq)
qed

lemma clock_of_seconds: "seconds_of u < 2 ^ 32 \<Longrightarrow> unat (clock_of u) = seconds_of u"
  by (cases u) (simp add: clock_of_def seconds_of_def unsigned_ucast_eq take_bit_nat_eq_self)

lemma sorted_clock_of:
  "sorted (map seconds_of us) \<Longrightarrow> \<forall>u\<in>set us. seconds_of u < 2 ^ 32 \<Longrightarrow> sorted (map clock_of us)"
proof (induction us)
  case Nil
  show ?case by simp
next
  case (Cons u us)
  have "clock_of u \<le> clock_of v" if "v \<in> set us" for v
  proof -
    have "seconds_of u \<le> seconds_of v" using Cons.prems(1) that by auto
    then show ?thesis
      using Cons.prems(2) that by (simp add: word_le_nat_alt clock_of_seconds)
  qed
  then show ?case using Cons by auto
qed

text \<open>
  Counterexample to C5 as stated: the timestamps of successive updates are not always
  non-decreasing. When the wall clock is set back between two updates (1700000007, then
  1700000000) the second timestamp is below the first; and when the clock goes on from
  4294967295 to 4294967296 seconds, the timestamps stored in 32 bits are 4294967295 and 0.
\<close>

theorem sensor_stamps_decrease_counterexample:
  "map (\<lambda>w. last_update (msr_batt (fst w)))
       (sensor_updates lunix_sensor_init [(512, 500, 300, 1700000007), (511, 499, 301, 1700000000)])
     = [1700000007, 1700000000]
   \<and> \<not> sorted [1700000007, 1700000000 :: 32 word]
   \<and> map (\<lambda>w. last_update (msr_batt (fst w)))
       (sensor_updates lunix_sensor_init [(512, 500, 300, 4294967295), (511, 499, 301, 4294967296)])
     = [4294967295, 0]
   \<and> (4294967295 :: 64 word) < 4294967296
   \<and> \<not> sorted [4294967295, 0 :: 32 word]"
proof -
  have "map (\<lambda>w. last_update (msr_batt (fst w)))
       (sensor_updates lunix_sensor_init [(512, 500, 300, 1700000007), (511, 499, 301, 1700000000)])
     = [1700000007, 1700000000]"
    using sensor_updates_stamps
      [of lunix_sensor_init "[(512, 500, 300, 1700000007), (511, 499, 301, 1700000000)]"]
    by (simp add: clock_of_def del: sensor_updates.simps)
  moreover have "map (\<lambda>w. last_update (msr_batt (fst w)))
       (sensor_updates lunix_sensor_init [(512, 500, 300, 4294967295), (511, 499, 301, 4294967296)])
     = [4294967295, 0]"
    using sensor_updates_stamps
      [of lunix_sensor_init "[(512, 500, 300, 4294967295), (511, 499, 301, 4294967296)]"]
    by (simp add: clock_of_def del: sensor_updates.simps)
  ultimately show ?thesis by simp
qed

text \<open>
  Claim C5, amended. One update stores the three raw values and stamps the three
  measurements with the same reading of the clock, so the three timestamps are equal after
  it. Its steps are: take the lock, stores only (to all three measurements), release the
  lock, wake the waiters; they follow the locking rule, so every store happens with the
  lock held and the wake-up after the lock is released. Over successive updates the
  timestamps of each measurement are the successive readings of the wall clock, cut to 32
  bits; they are non-decreasing when those readings are non-decreasing and below
  \<open>2 ^ 32\<close> seconds.
\<close>

theorem sensor_update_one_stamp:
  "(case lunix_sensor_update (s, tr) batt temp light now of
      (s', tr') \<Rightarrow>
        values0 (msr_batt s') = ucast batt \<and> values0 (msr_temp s') = ucast temp
        \<and> values0 (msr_light s') = ucast light
        \<and> last_update (msr_batt s') = ucast now \<and> last_update (msr_temp s') = ucast now
        \<and> last_update (msr_light s') = ucast now
        \<and> (\<exists>evs. tr' = tr @ evs @ [Release, Wake] \<and> lock_discipline False (evs @ [Release, Wake])
                  \<and> hd evs = Acquire \<and> Wake \<notin> set evs \<and> Release \<notin> set evs
                  \<and> {Store BATT, Store TEMP, Store LIGHT} \<subseteq> set evs)
        \<and> wq s' = wq s + 1)
   \<and> map (\<lambda>w. last_update (msr_batt (fst w))) (sensor_updates (s, tr) us) = map clock_of us
   \<and> map (\<lambda>w. last_update (msr_temp (fst w))) (sensor_updates (s, tr) us) = map clock_of us
   \<and> map (\<lambda>w. last_update (msr_light (fst w))) (sensor_updates (s, tr) us) = map clock_of us
   \<and> (sorted (map seconds_of us) \<and> (\<forall>u\<in>set us. seconds_of u < 2 ^ 32) \<longrightarrow>
        sorted (map (\<lambda>w. last_update (msr_batt (fst w))) (sensor_updates (s, tr) us))
        \<and> sorted (map (\<lambda>w. last_update (msr_temp (fst w))) (sensor_updates (s, tr) us))
        \<and> sorted (map (\<lambda>w. last_update (msr_light (fst w))) (sensor_updates (s, tr) us)))"
proof -
  have "lock_discipline False
          ([Acquire, Store BATT, Store TEMP, Store LIGHT, Store BATT, Store TEMP, Store LIGHT,
            Store LIGHT, Store TEMP, Store BATT] @ [Release, Wake])"
    by simp
  then have a: "\<exists>evs. tr @ [Acquire, Store BATT, Store TEMP, Store LIGHT, Store BATT, Store TEMP,
            Store LIGHT, Store LIGHT, Store TEMP, Store BATT, Release, Wake] = tr @ evs @ [Release, Wake]
          \<and> lock_discipline False (evs @ [Release, Wake])
          \<and> hd evs = Acquire \<and> Wake \<notin> set evs \<and> Release \<notin> set evs
          \<and> {Store BATT, Store TEMP, Store LIGHT} \<subseteq> set evs"
    by (intro exI [of _ "[Acquire, Store BATT, Store TEMP, Store LIGHT, Store BATT, Store TEMP,
            Store LIGHT, Store LIGHT, Store TEMP, Store BATT]"]) simp
  have one: "(case lunix_sensor_update (s, tr) batt temp light now of
      (s', tr') \<Rightarrow>
        values0 (msr_batt s') = ucast batt \<and> values0 (msr_temp s') = ucast temp
        \<and> values0 (msr_light s') = ucast light
        \<and> last_update (msr_batt s') = ucast now \<and> last_update (msr_temp s') = ucast now
        \<and> last_update (msr_light s') = ucast now
        \<and> (\<exists>evs. tr' = tr @ evs @ [Release, Wake] \<and> lock_discipline False (evs @ [Release, Wake])
                  \<and> hd evs = Acquire \<and> Wake \<notin> set evs \<and> Release \<notin> set evs
                  \<and> {Store BATT, Store TEMP, Store LIGHT} \<subseteq> set evs)
        \<and> wq s' = wq s + 1)"
    using a by (simp add: lunix_sensor_update_eq)
  note st = sensor_updates_stamps [of "(s, tr)" us]
  have "sorted (map clock_of us)"
    if "sorted (map seconds_of us)" "\<forall>u\<in>set us. seconds_of u < 2 ^ 32"
    using sorted_clock_of [OF that] .
  then show ?thesis using one st by (simp only: simp_thms) blast
qed

text \<open>
  Witness for the amended C5: two updates of a fresh sensor, at times 1700000000 and
  1700000007.
\<close>

theorem sensor_update_one_stamp_witness:
  "sorted (map seconds_of [(512, 500, 300, 1700000000), (511, 499, 301, 1700000007)])
   \<and> seconds_of (512, 500, 300, 1700000000) < 2 ^ 32
   \<and> seconds_of (511, 499, 301, 1700000007) < 2 ^ 32
   \<and> map (\<lambda>w. last_update (msr_batt (fst w)))
         (sensor_updates lunix_sensor_init [(512, 500, 300, 1700000000), (511, 499, 301, 1700000007)])
       = [1700000000, 1700000007]
   \<and> sorted (map (\<lambda>w. last_update (msr_batt (fst w)))
         (sensor_updates lunix_sensor_init [(512, 500, 300, 1700000000), (511, 499, 301, 1700000007)]))
   \<and> last_update (msr_temp (fst (lunix_sensor_update lunix_sensor_init 512 500 300 1700000000)))
       = last_update (msr_light (fst (lunix_sensor_update lunix_sensor_init 512 500 300 1700000000)))"
proof -
  obtain s tr where i: "lunix_sensor_init = (s, tr)" by (cases lunix_sensor_init)
  have h: "sorted (map seconds_of [(512, 500, 300, 1700000000), (511, 499, 301, 1700000007)])"
    "seconds_of (512, 500, 300, 1700000000) < 2 ^ 32"
    "seconds_of (511, 499, 301, 1700000007) < 2 ^ 32"
    by (simp_all add: seconds_of_def)
  have c: "map clock_of [(512, 500, 300, 1700000000), (511, 499, 301, 1700000007)]
             = [1700000000, 1700000007]"
    by (simp add: clock_of_def)
  note t = sensor_update_one_stamp [where s = s and tr = tr and batt = 512 and temp = 500
      and light = 300 and now = 1700000000
      and us = "[(512, 500, 300, 1700000000), (511, 499, 301, 1700000007)]"]
  have prem: "sorted (map seconds_of [(512, 500, 300, 1700000000), (511, 499, 301, 1700000007)])
      \<and> (\<forall>u\<in>set [(512, 500, 300, 1700000000), (511, 499, 301, 1700000007)]. seconds_of u < 2 ^ 32)"
    using h by simp
  from t prem
  have "sorted (map (\<lambda>w. last_update (msr_batt (fst w)))
         (sensor_updates (s, tr) [(512, 500, 300, 1700000000), (511, 499, 301, 1700000007)]))"
    by blast
  moreover from t
  have "last_update (msr_temp (fst (lunix_sensor_update (s, tr) 512 500 300 1700000000)))
       = last_update (msr_light (fst (lunix_sensor_update (s, tr) 512 500 300 1700000000)))"
    by (auto split: prod.splits)
  moreover from t
  have "map (\<lambda>w. last_update (msr_batt (fst w)))
         (sensor_updates (s, tr) [(512, 500, 300, 1700000000), (511, 499, 301, 1700000007)])
       = [1700000000, 1700000007]"
    unfolding c by (simp del: sensor_updates.simps)
  ultimately show ?thesis using h unfolding i by simp
qed

text \<open>
  Counterexample to C6 as stated: the temperature session of minor number 9, refreshed on
  the example sensor, has the cached timestamp 1700000000 and needs no refresh. After an
  update of the sensor that writes the older timestamp 1699999999 (the wall clock was set
  back) it needs a refresh, although that timestamp is not strictly newer.
\<close>

theorem needs_refresh_older_counterexample:
  "lunix_chrdev_state_update example_tables 20 example_sensor (example_session 9) =
       Some (0, \<lparr>type = 1, sensor = 1, buf_lim = 8, buf_data = ''-12.345'' @ [CHR 0x0A],
               buf_timestamp = 1700000000\<rparr>)
   \<and> lunix_chrdev_state_needs_refresh example_sensor
        \<lparr>type = 1, sensor = 1, buf_lim = 8, buf_data = ''-12.345'' @ [CHR 0x0A],
         buf_timestamp = 1700000000\<rparr> = Some False
   \<and> last_update (msr_temp (fst (lunix_sensor_update (example_sensor, []) 511 499 301 1699999999)))
       = 1699999999
   \<and> lunix_chrdev_state_needs_refresh
        (fst (lunix_sensor_update (example_sensor, []) 511 499 301 1699999999))
        \<lparr>type = 1, sensor = 1, buf_lim = 8, buf_data = ''-12.345'' @ [CHR 0x0A],
         buf_timestamp = 1700000000\<rparr> = Some True
   \<and> \<not> (1700000000 :: 32 word) < 1699999999"
proof -
  let ?st' = "\<lparr>type = 1, sensor = 1, buf_lim = 8, buf_data = ''-12.345'' @ [CHR 0x0A],
         buf_timestamp = 1700000000\<rparr>"
  let ?older = "fst (lunix_sensor_update (example_sensor, []) 511 499 301 1699999999)"
  have b: "lunix_chrdev_state_needs_refresh example_sensor ?st' = Some False"
    by (simp add: lunix_chrdev_state_needs_refresh_def msr_data_def example_sensor_eq
          BATT_def TEMP_def)
  have c: "last_update (msr_temp ?older) = 1699999999"
    by (simp add: lunix_sensor_update_eq)
  have d: "lunix_chrdev_state_needs_refresh ?older ?st' = Some True"
    by (simp add: lunix_chrdev_state_needs_refresh_def msr_data_def lunix_sensor_update_eq
          BATT_def TEMP_def)
  have e: "\<not> (1700000000 :: 32 word) < 1699999999" by simp
  show ?thesis by (intro conjI) (fact example_refresh_temp, fact b, fact c, fact d, fact e)
qed

text \<open>
  Claim C6, amended. For a session with a valid measurement type, \<^verbatim>\<open>needs_refresh\<close> is
  true exactly when the cached timestamp differs from the sensor's timestamp for that
  measurement. After a successful refresh it is false; and against every later state of
  the sensor it is true exactly when the sensor's timestamp differs from the one the cache
  was built from: strictly newer or older. In particular it is true after every update
  that writes a strictly newer timestamp, and stays false after one that writes the same.
\<close>

theorem needs_refresh_iff_stale:
  assumes "type st < N_LUNIX_MSR"
  shows "\<exists>m. msr_data sens (type st) = Some m
     \<and> lunix_chrdev_state_needs_refresh sens st = Some (buf_timestamp st \<noteq> last_update m)
     \<and> (\<forall>tabs bufsz st'. lunix_chrdev_state_update tabs bufsz sens st = Some (0, st') \<longrightarrow>
          lunix_chrdev_state_needs_refresh sens st' = Some False
          \<and> (\<forall>sens' m'. msr_data sens' (type st) = Some m' \<longrightarrow>
                lunix_chrdev_state_needs_refresh sens' st'
                  = Some (last_update m' \<noteq> last_update m))
          \<and> (\<forall>sens' m'. msr_data sens' (type st) = Some m' \<and> last_update m < last_update m' \<longrightarrow>
                lunix_chrdev_state_needs_refresh sens' st' = Some True))"
proof -
  obtain m where m: "msr_data sens (type st) = Some m"
    using assms msr_data_Some_iff by blast
  have nr: "lunix_chrdev_state_needs_refresh sens st = Some (buf_timestamp st \<noteq> last_update m)"
    using m by (simp add: lunix_chrdev_state_needs_refresh_def)
  have fresh: "lunix_chrdev_state_needs_refresh sens st' = Some False
          \<and> (\<forall>sens' m'. msr_data sens' (type st) = Some m' \<longrightarrow>
                lunix_chrdev_state_needs_refresh sens' st'
                  = Some (last_update m' \<noteq> last_update m))
          \<and> (\<forall>sens' m'. msr_data sens' (type st) = Some m' \<and> last_update m < last_update m' \<longrightarrow>
                lunix_chrdev_state_needs_refresh sens' st' = Some True)"
    if u: "lunix_chrdev_state_update tabs bufsz sens st = Some (0, st')" for tabs bufsz st'
  proof -
    have EA: "(0::int) \<noteq> - EAGAIN" "(0::int) \<noteq> - EINVAL" by (simp_all add: EAGAIN_def EINVAL_def)
    have st': "type st' = type st" "buf_timestamp st' = last_update m"
      using u m EA
      by (auto simp: lunix_chrdev_state_update_def lunix_chrdev_state_needs_refresh_def Let_def
            snprintf_def split: option.splits bool.splits if_splits prod.splits)
    have 1: "lunix_chrdev_state_needs_refresh sens st' = Some False"
      using m st' by (simp add: lunix_chrdev_state_needs_refresh_def)
    have 2: "lunix_chrdev_state_needs_refresh sens' st' = Some (last_update m' \<noteq> last_update m)"
      if "msr_data sens' (type st) = Some m'" for sens' m'
      using that st' by (auto simp: lunix_chrdev_state_needs_refresh_def)
    have 3: "lunix_chrdev_state_needs_refresh sens' st' = Some True"
      if "msr_data sens' (type st) = Some m'" "last_update m < last_update m'" for sens' m'
      using 2 [OF that(1)] that(2) by auto
    show ?thesis using 1 2 3 by blast
  qed
  show ?thesis using m nr fresh by blast
qed

text \<open>
  Witness for the amended C6: the temperature session of minor number 9 is stale on the
  example sensor, fresh after its refresh, and stale again after an update of the sensor
  at time 1700000007.
\<close>

theorem needs_refresh_iff_stale_witness:
  "type (example_session 9) < N_LUNIX_MSR
   \<and> lunix_chrdev_state_needs_refresh example_sensor (example_session 9) = Some True
   \<and> lunix_chrdev_state_update example_tables 20 example_sensor (example_session 9) =
       Some (0, \<lparr>type = 1, sensor = 1, buf_lim = 8, buf_data = ''-12.345'' @ [CHR 0x0A],
               buf_timestamp = 1700000000\<rparr>)
   \<and> lunix_chrdev_state_needs_refresh example_sensor
        \<lparr>type = 1, sensor = 1, buf_lim = 8, buf_data = ''-12.345'' @ [CHR 0x0A],
         buf_timestamp = 1700000000\<rparr> = Some False
   \<and> (1700000000 :: 32 word) < 1700000007
   \<and> lunix_chrdev_state_needs_refresh
        (fst (lunix_sensor_update (example_sensor, []) 511 499 301 1700000007))
        \<lparr>type = 1, sensor = 1, buf_lim = 8, buf_data = ''-12.345'' @ [CHR 0x0A],
         buf_timestamp = 1700000000\<rparr> = Some True"
proof -
  let ?st' = "\<lparr>type = 1, sensor = 1, buf_lim = 8, buf_data = ''-12.345'' @ [CHR 0x0A],
         buf_timestamp = 1700000000\<rparr>"
  let ?later = "fst (lunix_sensor_update (example_sensor, []) 511 499 301 1700000007)"
  let ?m' = "\<lparr>magic = LUNIX_MSR_MAGIC, last_update = 1700000007, values0 = 499\<rparr>"
  have t: "type (example_session 9) < N_LUNIX_MSR"
    by (simp add: example_session_def N_LUNIX_MSR_def)
  have mt: "msr_data example_sensor (type (example_session 9)) = Some (msr_temp example_sensor)"
    by (simp add: msr_data_def example_session_def BATT_def TEMP_def)
  have lu: "last_update (msr_temp example_sensor) = 1700000000"
    by (simp add: example_sensor_eq)
  have later: "msr_data ?later (type (example_session 9)) = Some ?m'"
    by (simp add: msr_data_def example_session_def BATT_def TEMP_def lunix_sensor_update_eq)
  have lt: "last_update (msr_temp example_sensor) < last_update ?m'"
    unfolding lu by simp
  from needs_refresh_iff_stale [OF t, of example_sensor] mt
  have a: "lunix_chrdev_state_needs_refresh example_sensor (example_session 9)
            = Some (buf_timestamp (example_session 9) \<noteq> last_update (msr_temp example_sensor))"
    and b: "\<And>tabs bufsz st'. lunix_chrdev_state_update tabs bufsz example_sensor (example_session 9) = Some (0, st') \<Longrightarrow>
          lunix_chrdev_state_needs_refresh example_sensor st' = Some False
          \<and> (\<forall>sens' m'. msr_data sens' (type (example_session 9)) = Some m'
                  \<and> last_update (msr_temp example_sensor) < last_update m' \<longrightarrow>
                lunix_chrdev_state_needs_refresh sens' st' = Some True)"
    by auto
  from b [OF example_refresh_temp] later lt
  have "lunix_chrdev_state_needs_refresh example_sensor ?st' = Some False"
    and "lunix_chrdev_state_needs_refresh ?later ?st' = Some True"
    by blast+
  moreover have "lunix_chrdev_state_needs_refresh example_sensor (example_session 9) = Some True"
    unfolding a lu by (simp add: example_session_def)
  ultimately show ?thesis using t example_refresh_temp by simp
qed

section \<open>The registry\<close>

text \<open>
  Claim C7. A packet that is not a sensor packet changes nothing. Of a sensor packet the
  node id is extracted: when it is outside 1 .. \<open>sensor_cnt\<close> (0 and 17 with 16 sensors,
  for example) the only effect is a warning in the log, and no sensor is changed; when it
  is inside, the sensor at index \<open>nodeid - 1\<close> is updated with the three extracted
  values, every other sensor is as before, and nothing is logged.
\<close>

theorem update_sensors_checks_node_id:
  assumes "length (lunix_sensors w) = sensor_cnt"
  shows "(p ! PACKET_SIGNATURE_OFFSET \<noteq> 0x0B \<longrightarrow>
           lunix_protocol_update_sensors sensor_cnt now p w = w)
     \<and> (p ! PACKET_SIGNATURE_OFFSET = 0x0B \<longrightarrow>
          (case frame_fields p of
             (nodeid, batt, temp, light) \<Rightarrow>
               (unat nodeid < 1 \<or> sensor_cnt < unat nodeid \<longrightarrow>
                  lunix_protocol_update_sensors sensor_cnt now p w
                    = w\<lparr>warnings := warnings w @ [unat nodeid]\<rparr>
                  \<and> lunix_sensors (lunix_protocol_update_sensors sensor_cnt now p w)
                    = lunix_sensors w)
               \<and> (1 \<le> unat nodeid \<and> unat nodeid \<le> sensor_cnt \<longrightarrow>
                    lunix_sensors (lunix_protocol_update_sensors sensor_cnt now p w) ! (unat nodeid - 1)
                      = lunix_sensor_update (lunix_sensors w ! (unat nodeid - 1)) batt temp light now
                    \<and> (\<forall>i. i \<noteq> unat nodeid - 1 \<longrightarrow>
                          lunix_sensors (lunix_protocol_update_sensors sensor_cnt now p w) ! i
                            = lunix_sensors w ! i)
                    \<and> length (lunix_sensors (lunix_protocol_update_sensors sensor_cnt now p w))
                        = sensor_cnt
                    \<and> warnings (lunix_protocol_update_sensors sensor_cnt now p w) = warnings w)))"
  using assms
  by (auto simp: lunix_protocol_update_sensors_def split: prod.splits)

lemma example_packet_fields:
  "example_packet n ! PACKET_SIGNATURE_OFFSET = 0x0B"
  "frame_fields (example_packet n) = (ucast n, 512, 500, 300)"
  by (simp_all add: example_packet_def frame_fields_def uint16_from_packet_def le16_def MAX_PACKET_LEN_def
        PACKET_SIGNATURE_OFFSET_def NODE_OFFSET_def VREF_OFFSET_def TEMPERATURE_OFFSET_def
        LIGHT_OFFSET_def)

text \<open>
  Witness for C7: with 16 fresh sensors, the node ids 0 and 17 only leave a warning, and
  the node id 16 updates the sensor at index 15 and leaves the one at index 14 alone.
\<close>

theorem update_sensors_checks_node_id_witness:
  "length (lunix_sensors example_world) = LUNIX_SENSOR_CNT \<and> LUNIX_SENSOR_CNT = 16
   \<and> example_packet 0 ! PACKET_SIGNATURE_OFFSET = 0x0B
   \<and> lunix_protocol_update_sensors LUNIX_SENSOR_CNT 1700000000 (example_packet 0) example_world
       = example_world\<lparr>warnings := [0]\<rparr>
   \<and> lunix_protocol_update_sensors LUNIX_SENSOR_CNT 1700000000 (example_packet 17) example_world
       = example_world\<lparr>warnings := [17]\<rparr>
   \<and> lunix_sensors (lunix_protocol_update_sensors LUNIX_SENSOR_CNT 1700000000 (example_packet 16) example_world) ! 15
       = lunix_sensor_update lunix_sensor_init 512 500 300 1700000000
   \<and> lunix_sensors (lunix_protocol_update_sensors LUNIX_SENSOR_CNT 1700000000 (example_packet 16) example_world) ! 14
       = lunix_sensor_init"
proof -
  have l: "length (lunix_sensors example_world) = LUNIX_SENSOR_CNT"
    by (simp add: example_world_def)
  have f: "frame_fields (example_packet 0) = (0, 512, 500, 300)"
    "frame_fields (example_packet 17) = (17, 512, 500, 300)"
    "frame_fields (example_packet 16) = (16, 512, 500, 300)"
    by (simp_all add: example_packet_fields)
  have n: "lunix_sensors example_world ! 15 = lunix_sensor_init"
    "lunix_sensors example_world ! 14 = lunix_sensor_init" "warnings example_world = []"
    by (simp_all add: example_world_def LUNIX_SENSOR_CNT_def)
  show ?thesis
    using update_sensors_checks_node_id [OF l, of "example_packet 0" 1700000000]
      update_sensors_checks_node_id [OF l, of "example_packet 17" 1700000000]
      update_sensors_checks_node_id [OF l, of "example_packet 16" 1700000000]
    by (simp add: example_packet_fields(1) f l n LUNIX_SENSOR_CNT_def)
qed

section \<open>The parser\<close>

subsection \<open>Chunks\<close>

lemma parse_state_idle:
  "\<not> bytes_read st < bytes_to_read st \<Longrightarrow>
   lunix_protocol_parse_state us st buf = (st, buf, Complete)"
  by (cases buf) auto

lemma parse_state_full:
  "bytes_read st < bytes_to_read st \<Longrightarrow> pos st = MAX_PACKET_LEN \<Longrightarrow> buf \<noteq> [] \<Longrightarrow>
   lunix_protocol_parse_state us st buf = (lunix_protocol_init st, buf, Too_long)"
  by (cases buf) auto

lemma received_buf_Nil: "lunix_protocol_received_buf upd sw [] = sw"
  by (simp add: lunix_protocol_received_buf.simps)

lemma parse_state_stage:
  "lunix_protocol_parse_state us st buf = (st', rest, r) \<Longrightarrow> r \<noteq> Too_long \<Longrightarrow> state st' = state st"
  by (induction us st buf rule: lunix_protocol_parse_state.induct)
     (auto simp: store_byte_def split: if_splits)

lemma parse_state_More:
  "lunix_protocol_parse_state us st buf = (st', rest, More) \<Longrightarrow> rest = []"
  by (induction us st buf rule: lunix_protocol_parse_state.induct) (auto split: if_splits)

lemma parse_state_append:
  "lunix_protocol_parse_state us st xs = (st', rest, r) \<Longrightarrow>
   lunix_protocol_parse_state us st (xs @ ys) =
     (if r = More then lunix_protocol_parse_state us st' ys else (st', rest @ ys, r))"
proof (induction us st xs rule: lunix_protocol_parse_state.induct)
  case (1 us st)
  then show ?case by (auto simp: parse_state_idle split: if_splits)
next
  case (2 us st b bs)
  then show ?case by (auto split: if_splits)
qed

lemma received_step_More:
  assumes "step_parse st xs = (st', rest, More)"
  shows "received_step upd (st, w) xs = ((st', w), [])"
  using assms parse_state_More [of _ st xs st' rest]
  by (cases "state st") (auto simp: received_step_def collect_stage_def step_parse_def)

lemma received_step_append_More:
  assumes "step_parse st xs = (st', rest, More)"
  shows "received_step upd (st, w) (xs @ ys) = received_step upd (st', w) ys"
proof -
  have s: "state st' = state st"
    using assms parse_state_stage unfolding step_parse_def by blast
  have "step_parse st (xs @ ys) = step_parse st' ys"
    using parse_state_append [of _ st xs st' rest More ys] assms s
    by (simp add: step_parse_def)
  then show ?thesis using s
    by (cases "state st") (simp_all add: received_step_def collect_stage_def step_parse_def)
qed

lemma received_step_append_done:
  assumes "step_parse st xs = (st', rest, r)" and "r \<noteq> More"
    and "received_step upd (st, w) xs = (sw1, rest1)"
  shows "received_step upd (st, w) (xs @ ys) = (sw1, rest1 @ ys)"
proof -
  have "step_parse st (xs @ ys) = (st', rest @ ys, r)"
    using parse_state_append [of _ st xs st' rest r ys] assms
    by (simp add: step_parse_def)
  then show ?thesis using assms
    by (cases "state st"; cases r)
       (auto simp: received_step_def collect_stage_def Let_def step_parse_def)
qed

lemma received_buf_append:
  "lunix_protocol_received_buf upd sw (xs @ ys) =
     lunix_protocol_received_buf upd (lunix_protocol_received_buf upd sw xs) ys"
proof (induction upd sw xs rule: lunix_protocol_received_buf.induct)
  case (1 upd sw buf)
  show ?case
  proof (cases "buf = []")
    case True
    then show ?thesis by (simp add: received_buf_Nil)
  next
    case False
    obtain st w where sw: "sw = (st, w)" by (cases sw)
    obtain st' rest r where p: "step_parse st buf = (st', rest, r)" by (cases "step_parse st buf")
    obtain sw1 rest1 where rs: "received_step upd sw buf = (sw1, rest1)"
      by (cases "received_step upd sw buf")
    show ?thesis
    proof (cases "r = More")
      case True
      with p sw rs have a: "sw1 = (st', w)" "rest1 = []"
        using received_step_More [of st buf st' rest upd w] by auto
      have l: "lunix_protocol_received_buf upd sw buf = (st', w)"
        using False rs a by (subst lunix_protocol_received_buf.simps) (simp add: received_buf_Nil)
      show ?thesis
      proof (cases "ys = []")
        case True
        then show ?thesis by (simp add: received_buf_Nil)
      next
        case ys: False
        have "lunix_protocol_received_buf upd sw (buf @ ys) =
                (let (sw', rest) = received_step upd (st', w) ys
                 in lunix_protocol_received_buf upd sw' rest)"
          using False p True sw received_step_append_More [of st buf st' rest upd w ys]
          by (subst lunix_protocol_received_buf.simps) simp
        also have "\<dots> = lunix_protocol_received_buf upd (st', w) ys"
          using ys by (subst (2) lunix_protocol_received_buf.simps) simp
        finally show ?thesis using l by simp
      qed
    next
      case nm: False
      have "lunix_protocol_received_buf upd sw (buf @ ys) =
              lunix_protocol_received_buf upd sw1 (rest1 @ ys)"
        using False received_step_append_done [OF p nm, of upd w sw1 rest1 ys] rs sw
        by (subst lunix_protocol_received_buf.simps) simp
      also have "\<dots> = lunix_protocol_received_buf upd (lunix_protocol_received_buf upd sw1 rest1) ys"
        using "1.IH" [OF False rs [symmetric] refl] .
      also have "lunix_protocol_received_buf upd sw1 rest1 = lunix_protocol_received_buf upd sw buf"
        using False rs by (subst (2) lunix_protocol_received_buf.simps) simp
      finally show ?thesis .
    qed
  qed
qed

lemma feed_chunks_concat:
  "feed_chunks upd sw chunks = lunix_protocol_received_buf upd sw (concat chunks)"
  unfolding feed_chunks_def
  by (induction chunks arbitrary: sw) (simp_all add: received_buf_append received_buf_Nil)

subsection \<open>The position stays within the buffer\<close>

lemma parse_state_buffer_ok:
  "lunix_protocol_parse_state us st buf = (st', rest, r) \<Longrightarrow> buffer_ok st \<Longrightarrow> buffer_ok st'"
proof (induction us st buf rule: lunix_protocol_parse_state.induct)
  case (1 us st)
  then show ?case by simp
next
  case (2 us st b bs)
  then show ?case
    by (auto simp: buffer_ok_def store_byte_def lunix_protocol_init_def set_state_def
          split: if_splits)
qed

lemma received_step_buffer_ok:
  assumes "received_step upd (st, w) buf = ((st', w'), rest)" and "buffer_ok st"
  shows "buffer_ok st'"
proof -
  have k: "buffer_ok s1" if "lunix_protocol_parse_state us st buf = (s1, r1, x)" for us s1 r1 x
    using parse_state_buffer_ok [OF that assms(2)] .
  have i: "buffer_ok (set_state s n a b)" "buffer_ok (lunix_protocol_init s)"
    "buffer_ok (s\<lparr>payload_length := l\<rparr>)" if "buffer_ok s" for s n a b l
    using that by (simp_all add: buffer_ok_def set_state_def lunix_protocol_init_def)
  show ?thesis
    using assms(1) k i
    by (cases "state st")
       (auto simp: received_step_def collect_stage_def Let_def
          split: prod.splits parse_ret.splits if_splits)
qed

lemma received_buf_buffer_ok:
  "buffer_ok (fst sw) \<Longrightarrow> buffer_ok (fst (lunix_protocol_received_buf upd sw buf))"
proof (induction upd sw buf rule: lunix_protocol_received_buf.induct)
  case (1 upd sw buf)
  show ?case
  proof (cases "buf = []")
    case True
    then show ?thesis using 1(2) by (simp add: received_buf_Nil)
  next
    case False
    obtain sw1 rest1 where rs: "received_step upd sw buf = (sw1, rest1)"
      by (cases "received_step upd sw buf")
    have "buffer_ok (fst sw1)"
      using received_step_buffer_ok [of upd "fst sw" "snd sw" buf "fst sw1" "snd sw1" rest1] rs 1(2)
      by simp
    from "1.IH" [OF False rs [symmetric] refl this]
    show ?thesis using False rs by (subst lunix_protocol_received_buf.simps) simp
  qed
qed

lemma initial_buffer_ok: "buffer_ok initial_protocol_state"
  by (simp add: buffer_ok_def initial_protocol_state_def lunix_protocol_init_def set_state_def)

lemma stage_budget_le: "stage_budget s \<le> 265"
  by (cases s) (simp_all add: stage_budget_def)

lemma in_budget_pos: "in_budget st \<Longrightarrow> pos st \<le> 265"
  using stage_budget_le [of "state st"] by (simp add: in_budget_def)

lemma in_budget_room: "in_budget st \<Longrightarrow> bytes_read st < bytes_to_read st \<Longrightarrow> pos st < 265"
  using stage_budget_le [of "state st"] by (simp add: in_budget_def)

lemma parse_state_in_budget:
  "lunix_protocol_parse_state us st buf = (st', rest, r) \<Longrightarrow> in_budget st \<Longrightarrow>
   in_budget st' \<and> state st' = state st \<and> r \<noteq> Too_long
   \<and> (r = Complete \<longrightarrow> bytes_read st' = bytes_to_read st')"
proof (induction us st buf rule: lunix_protocol_parse_state.induct)
  case (1 us st)
  then show ?case by (auto simp: in_budget_def split: if_splits)
next
  case (2 us st b bs)
  show ?case
  proof (cases "bytes_read st < bytes_to_read st")
    case False
    then show ?thesis using 2(4,5) by (auto simp: in_budget_def)
  next
    case True
    then have room: "pos st \<noteq> MAX_PACKET_LEN"
      using in_budget_room [OF 2(5)] by (simp add: MAX_PACKET_LEN_def)
    have s1: "in_budget (store_byte c (st\<lparr>next_is_special := f\<rparr>))"
      "state (store_byte c (st\<lparr>next_is_special := f\<rparr>)) = state st" for c f
      using True 2(5) by (auto simp: in_budget_def store_byte_def)
    have s2: "in_budget (st\<lparr>next_is_special := f\<rparr>)" for f
      using 2(5) by (auto simp: in_budget_def)
    have s3: "in_budget (store_byte c st)" "state (store_byte c st) = state st" for c
      using True 2(5) by (auto simp: in_budget_def store_byte_def)
    show ?thesis
    proof -
      consider (a) "us \<and> next_is_special st" | (b) "\<not> (us \<and> next_is_special st)" "us \<and> b = 0x7D"
        | (c) "\<not> (us \<and> next_is_special st)" "\<not> (us \<and> b = 0x7D)" by blast
      then show ?thesis
      proof cases
        case a
        then have "lunix_protocol_parse_state us (store_byte (b XOR 0x20) (st\<lparr>next_is_special := False\<rparr>)) bs
                 = (st', rest, r)"
          using 2(4) True room by simp
        from 2(1) [OF _ room a this s1(1)] True s1(2) show ?thesis by simp
      next
        case b
        then have "lunix_protocol_parse_state us (st\<lparr>next_is_special := True\<rparr>) bs = (st', rest, r)"
          using 2(4) True room by simp
        from 2(2) [OF _ room b this s2] True show ?thesis by simp
      next
        case c
        then have "lunix_protocol_parse_state us (store_byte b st) bs = (st', rest, r)"
          using 2(4) True room by auto
        from 2(3) [OF _ room c this s3(1)] True s3(2) show ?thesis by simp
      qed
    qed
  qed
qed

lemma received_step_in_budget:
  assumes "received_step upd (st, w) buf = ((st', w'), rest)" and "in_budget st"
  shows "in_budget st'"
proof -
  obtain s1 r1 x where p: "step_parse st buf = (s1, r1, x)" by (cases "step_parse st buf")
  from parse_state_in_budget [OF p [unfolded step_parse_def] assms(2)]
  have k: "bytes_read s1 \<le> bytes_to_read s1"
    "pos s1 + (bytes_to_read s1 - bytes_read s1) \<le> stage_budget (state st)"
    "state s1 = state st" "x \<noteq> Too_long" "x = Complete \<Longrightarrow> bytes_read s1 = bytes_to_read s1"
    by (auto simp: in_budget_def)
  have l: "unat (payload_byte :: 8 word) \<le> 255" for payload_byte
    using unsigned_less [of payload_byte, where 'a = nat] by simp
  show ?thesis
  proof (cases x)
    case More
    then have "st' = s1" using assms(1) p
      by (cases "state st") (auto simp: received_step_def collect_stage_def step_parse_def)
    then show ?thesis using k by (auto simp: in_budget_def)
  next
    case Complete
    then have full: "bytes_read s1 = bytes_to_read s1" using k(5) by simp
    show ?thesis
      using assms(1) p Complete k(2) full l [of "packet s1 ! (pos s1 - 1)"]
      by (cases "state st")
         (auto simp: received_step_def collect_stage_def step_parse_def Let_def in_budget_def
            set_state_def lunix_protocol_init_def stage_budget_def split: if_splits)
  next
    case Too_long
    then show ?thesis using k(4) by simp
  qed
qed

lemma received_buf_in_budget:
  "in_budget (fst sw) \<Longrightarrow> in_budget (fst (lunix_protocol_received_buf upd sw buf))"
proof (induction upd sw buf rule: lunix_protocol_received_buf.induct)
  case (1 upd sw buf)
  show ?case
  proof (cases "buf = []")
    case True
    then show ?thesis using 1(2) by (simp add: received_buf_Nil)
  next
    case False
    obtain sw1 rest1 where rs: "received_step upd sw buf = (sw1, rest1)"
      by (cases "received_step upd sw buf")
    have "in_budget (fst sw1)"
      using received_step_in_budget [of upd "fst sw" "snd sw" buf "fst sw1" "snd sw1" rest1] rs 1(2)
      by simp
    from "1.IH" [OF False rs [symmetric] refl this]
    show ?thesis using False rs by (subst lunix_protocol_received_buf.simps) simp
  qed
qed

lemma initial_in_budget: "in_budget initial_protocol_state"
  by (simp add: in_budget_def initial_protocol_state_def lunix_protocol_init_def set_state_def
        stage_budget_def)

text \<open>
  Claim C8. Whatever bytes arrive, in whatever chunks, the position of the parser is at
  most \<^verbatim>\<open>MAX_PACKET_LEN\<close> (300) after every chunk, and its buffer keeps that length.
  From the initial state the position stays at 265 or below, the length of the longest
  frame, so a stage that still wants a byte always finds room: no input fills the buffer.
  In any parser state whose stage still wants a byte while the position has reached
  \<^verbatim>\<open>MAX_PACKET_LEN\<close>, the next pass resets the parser to its initial state (seeking
  the start byte, position 0, one byte to read, no escape pending), hands no packet over
  (the world outside the parser is unchanged) and consumes no byte.
\<close>

theorem parser_position_bounded:
  "pos (fst (feed_chunks upd (initial_protocol_state, w) chunks)) \<le> MAX_PACKET_LEN
   \<and> length (packet (fst (feed_chunks upd (initial_protocol_state, w) chunks))) = MAX_PACKET_LEN
   \<and> pos (fst (feed_chunks upd (initial_protocol_state, w) chunks)) \<le> 265
   \<and> \<not> (bytes_read (fst (feed_chunks upd (initial_protocol_state, w) chunks))
            < bytes_to_read (fst (feed_chunks upd (initial_protocol_state, w) chunks))
          \<and> pos (fst (feed_chunks upd (initial_protocol_state, w) chunks)) = MAX_PACKET_LEN)
   \<and> (bytes_read st < bytes_to_read st \<and> pos st = MAX_PACKET_LEN \<and> buf \<noteq> [] \<longrightarrow>
        received_step upd (st, w') buf = ((lunix_protocol_init st, w'), buf)
        \<and> state (lunix_protocol_init st) = SEEKING_START_BYTE
        \<and> pos (lunix_protocol_init st) = 0
        \<and> bytes_read (lunix_protocol_init st) = 0 \<and> bytes_to_read (lunix_protocol_init st) = 1
        \<and> \<not> next_is_special (lunix_protocol_init st))"
proof -
  let ?st = "fst (feed_chunks upd (initial_protocol_state, w) chunks)"
  have "buffer_ok ?st"
    unfolding feed_chunks_concat using received_buf_buffer_ok [of "(initial_protocol_state, w)"]
    by (simp add: initial_buffer_ok)
  then have a: "pos ?st \<le> MAX_PACKET_LEN" "length (packet ?st) = MAX_PACKET_LEN"
    by (simp_all add: buffer_ok_def)
  have "in_budget ?st"
    unfolding feed_chunks_concat using received_buf_in_budget [of "(initial_protocol_state, w)"]
    by (simp add: initial_in_budget)
  then have b: "pos ?st \<le> 265" "\<not> (bytes_read ?st < bytes_to_read ?st \<and> pos ?st = MAX_PACKET_LEN)"
    using in_budget_pos [of ?st] in_budget_room [of ?st] by (auto simp: MAX_PACKET_LEN_def)
  have c: "received_step upd (st, w') buf = ((lunix_protocol_init st, w'), buf)"
    if "bytes_read st < bytes_to_read st" "pos st = MAX_PACKET_LEN" "buf \<noteq> []"
    using parse_state_full [OF that]
    by (cases "state st") (simp_all add: received_step_def collect_stage_def)
  have d: "state (lunix_protocol_init st) = SEEKING_START_BYTE \<and> pos (lunix_protocol_init st) = 0
        \<and> bytes_read (lunix_protocol_init st) = 0 \<and> bytes_to_read (lunix_protocol_init st) = 1
        \<and> \<not> next_is_special (lunix_protocol_init st)"
    by (simp add: lunix_protocol_init_def set_state_def)
  show ?thesis using a b c d by blast
qed

text \<open>
  Witness for C8: a parser in the payload stage with a full buffer is reset by the next
  byte, and the position after the example chunks is within the buffer.
\<close>

theorem parser_position_bounded_witness:
  "bytes_read example_full_state < bytes_to_read example_full_state
   \<and> pos example_full_state = MAX_PACKET_LEN \<and> [0x41 :: 8 word] \<noteq> []
   \<and> received_step (\<lambda>p log. log @ [frame_fields p]) (example_full_state, []) [0x41]
       = ((initial_protocol_state, []), [0x41])
   \<and> pos (fst (feed_chunks (\<lambda>p log. log @ [frame_fields p]) (initial_protocol_state, []) example_chunks))
       \<le> MAX_PACKET_LEN"
  using parser_position_bounded [where upd = "\<lambda>p log. log @ [frame_fields p]" and w = "[]"
      and w' = "[]" and chunks = example_chunks and st = example_full_state and buf = "[0x41]"]
  by (simp add: example_full_state_def initial_protocol_state_def lunix_protocol_init_def
        set_state_def MAX_PACKET_LEN_def)

subsection \<open>A well-formed frame is decoded\<close>

lemma stuffed_simps:
  "stuffed [] = []" "stuffed (b # bs) = stuff_byte b @ stuffed bs"
  "stuffed (xs @ ys) = stuffed xs @ stuffed ys"
  by (simp_all add: stuffed_def)

lemma fill_simps: "fill st [] = st" "fill st (b # bs) = fill (store_byte b st) bs"
  by (simp_all add: fill_def)

lemma unstuff: "(b XOR 0x20) XOR 0x20 = (b :: 8 word)"
  by (simp add: xor.assoc)

lemma parse_stuffed:
  assumes "\<not> next_is_special st" and "bytes_read st + length bs = bytes_to_read st"
    and "pos st + length bs \<le> MAX_PACKET_LEN"
  shows "lunix_protocol_parse_state True st (stuffed bs @ rest) = (fill st bs, rest, Complete)"
  using assms
proof (induction bs arbitrary: st)
  case Nil
  then show ?case by (simp add: stuffed_simps fill_simps parse_state_idle)
next
  case (Cons b bs)
  have a: "bytes_read st < bytes_to_read st" "pos st \<noteq> MAX_PACKET_LEN"
    using Cons.prems by auto
  have n: "\<not> next_is_special (store_byte b st)"
    "bytes_read (store_byte b st) + length bs = bytes_to_read (store_byte b st)"
    "pos (store_byte b st) + length bs \<le> MAX_PACKET_LEN"
    using Cons.prems by (auto simp: store_byte_def)
  have e: "st\<lparr>next_is_special := False\<rparr> = st" using Cons.prems(1) by simp
  show ?case
  proof (cases "b = 0x7E \<or> b = 0x7D")
    case True
    then have "lunix_protocol_parse_state True st (stuffed (b # bs) @ rest) =
            lunix_protocol_parse_state True (store_byte b st) (stuffed bs @ rest)"
      using a Cons.prems(1) by (auto simp: stuffed_simps stuff_byte_def unstuff e)
    then show ?thesis using Cons.IH [OF n] by (simp add: fill_simps)
  next
    case False
    then have "lunix_protocol_parse_state True st (stuffed (b # bs) @ rest) =
            lunix_protocol_parse_state True (store_byte b st) (stuffed bs @ rest)"
      using a Cons.prems(1) by (auto simp: stuffed_simps stuff_byte_def)
    then show ?thesis using Cons.IH [OF n] by (simp add: fill_simps)
  qed
qed

lemma fill_fields:
  "state (fill st bs) = state st \<and> bytes_to_read (fill st bs) = bytes_to_read st
   \<and> bytes_read (fill st bs) = bytes_read st + length bs
   \<and> pos (fill st bs) = pos st + length bs
   \<and> next_is_special (fill st bs) = next_is_special st
   \<and> payload_length (fill st bs) = payload_length st"
  by (induction bs arbitrary: st) (simp_all add: fill_simps store_byte_def)

lemma fill_packet:
  "pos st + length bs \<le> length (packet st) \<Longrightarrow>
   packet (fill st bs) = take (pos st) (packet st) @ bs @ drop (pos st + length bs) (packet st)"
proof (induction bs arbitrary: st)
  case Nil
  then show ?case by (simp add: fill_simps)
next
  case (Cons b bs)
  have p: "pos st < length (packet st)" using Cons.prems by simp
  have "packet (fill (store_byte b st) bs) =
          take (pos st + 1) ((packet st)[pos st := b]) @ bs
            @ drop (pos st + 1 + length bs) ((packet st)[pos st := b])"
    using Cons.IH [of "store_byte b st"] Cons.prems by (simp add: store_byte_def)
  also have "take (pos st + 1) ((packet st)[pos st := b]) = take (pos st) (packet st) @ [b]"
    using p by (simp add: take_Suc_conv_app_nth)
  also have "drop (pos st + 1 + length bs) ((packet st)[pos st := b])
               = drop (pos st + length (b # bs)) (packet st)"
    by simp
  finally show ?case by (simp add: fill_simps)
qed

lemma at_stage_fill:
  assumes "at_stage pkt0 st X k pre" and "length bs = k" and "length pre + k \<le> MAX_PACKET_LEN"
  shows "at_stage pkt0 (set_state (fill st bs) N c 0) N c (pre @ bs)"
    and "payload_length (set_state (fill st bs) N c 0) = payload_length st"
    and "lunix_protocol_parse_state True st (stuffed bs @ rest) = (fill st bs, rest, Complete)"
proof -
  have l: "length (packet st) = MAX_PACKET_LEN"
    using assms(1,3) by (simp add: at_stage_def)
  have "packet (fill st bs) = take (pos st) (packet st) @ bs @ drop (pos st + length bs) (packet st)"
    using assms l by (intro fill_packet) (simp add: at_stage_def)
  also have "\<dots> = (pre @ bs) @ drop (length (pre @ bs)) pkt0"
    using assms by (simp add: at_stage_def add.commute)
  finally show "at_stage pkt0 (set_state (fill st bs) N c 0) N c (pre @ bs)"
    using assms fill_fields [of st bs] by (simp add: at_stage_def set_state_def)
  show "payload_length (set_state (fill st bs) N c 0) = payload_length st"
    using fill_fields [of st bs] by (simp add: set_state_def)
  show "lunix_protocol_parse_state True st (stuffed bs @ rest) = (fill st bs, rest, Complete)"
    using assms by (intro parse_stuffed) (simp_all add: at_stage_def)
qed

lemma received_buf_step:
  "buf \<noteq> [] \<Longrightarrow> received_step upd sw buf = (sw', rest) \<Longrightarrow>
   lunix_protocol_received_buf upd sw buf = lunix_protocol_received_buf upd sw' rest"
  by (subst lunix_protocol_received_buf.simps) simp

lemma stuffed_rest_nonempty: "rest \<noteq> [] \<Longrightarrow> stuffed bs @ rest \<noteq> []"
  by simp

lemma collect_step:
  assumes "at_stage pkt0 st X k pre" and "length bs = k" and "length pre + k \<le> MAX_PACKET_LEN"
    and "rest \<noteq> []"
    and "(X, N, c) \<in> {(SEEKING_PACKET_TYPE, SEEKING_DESTINATION_ADDRESS, 2),
                     (SEEKING_DESTINATION_ADDRESS, SEEKING_AM_TYPE, 1),
                     (SEEKING_AM_TYPE, SEEKING_AM_GROUP, 1),
                     (SEEKING_AM_GROUP, SEEKING_PAYLOAD_LENGTH, 1),
                     (SEEKING_PAYLOAD, SEEKING_CRC, 2),
                     (SEEKING_CRC, SEEKING_END_BYTE, 1)}"
  shows "\<exists>st'. lunix_protocol_received_buf upd (st, w) (stuffed bs @ rest)
                 = lunix_protocol_received_buf upd (st', w) rest
               \<and> at_stage pkt0 st' N c (pre @ bs) \<and> payload_length st' = payload_length st"
proof -
  let ?st' = "set_state (fill st bs) N c 0"
  note f = at_stage_fill(1) [OF assms(1-3), where N = N and c = c]
    at_stage_fill(2) [OF assms(1-3), where N = N and c = c]
    at_stage_fill(3) [OF assms(1-3)]
  have X: "state st = X" using assms(1) by (simp add: at_stage_def)
  have "received_step upd (st, w) (stuffed bs @ rest) = ((?st', w), rest)"
    using assms(5) X f(3) [of rest]
    by (auto simp: received_step_def collect_stage_def)
  from received_buf_step [OF stuffed_rest_nonempty [OF assms(4)] this] f(1,2)
  show ?thesis by blast
qed

lemma length_step:
  assumes "at_stage pkt0 st SEEKING_PAYLOAD_LENGTH 1 pre" and "length pre + 1 \<le> MAX_PACKET_LEN"
    and "rest \<noteq> []"
  shows "\<exists>st'. lunix_protocol_received_buf upd (st, w) (stuffed [len] @ rest)
                 = lunix_protocol_received_buf upd (st', w) rest
               \<and> at_stage pkt0 st' SEEKING_PAYLOAD (unat len) (pre @ [len])
               \<and> payload_length st' = len"
proof -
  let ?f = "fill st [len]"
  let ?st' = "set_state (?f\<lparr>payload_length := len\<rparr>) SEEKING_PAYLOAD (unat len) 0"
  have l: "length [len] = 1" by simp
  note f = at_stage_fill(1) [OF assms(1) l assms(2), where N = SEEKING_PAYLOAD and c = "unat len"]
    at_stage_fill(2) [OF assms(1) l assms(2), where N = SEEKING_PAYLOAD and c = "unat len"]
    at_stage_fill(3) [OF assms(1) l assms(2)]
  have X: "state st = SEEKING_PAYLOAD_LENGTH" using assms(1) by (simp add: at_stage_def)
  have a: "at_stage pkt0 (set_state ?f SEEKING_PAYLOAD (unat len) 0) SEEKING_PAYLOAD (unat len) (pre @ [len])"
    using f(1) .
  then have a': "at_stage pkt0 ?st' SEEKING_PAYLOAD (unat len) (pre @ [len])"
    by (simp add: at_stage_def set_state_def)
  have "packet ?f = (pre @ [len]) @ drop (length (pre @ [len])) pkt0" "pos ?f = length (pre @ [len])"
    using a by (simp_all add: at_stage_def set_state_def)
  then have "packet ?f ! (pos ?f - 1) = len"
    by (simp add: nth_append)
  then have "received_step upd (st, w) (stuffed [len] @ rest) = ((?st', w), rest)"
    using X f(3) [of rest] by (simp add: received_step_def Let_def)
  from received_buf_step [OF stuffed_rest_nonempty [OF assms(3)] this] a'
  show ?thesis by (auto simp: set_state_def)
qed

lemma start_step:
  assumes "at_stage pkt0 st SEEKING_START_BYTE 1 []"
  shows "\<exists>st'. lunix_protocol_received_buf upd (st, w) (0x7E # rest)
                 = lunix_protocol_received_buf upd (st', w) rest
               \<and> at_stage pkt0 st' SEEKING_PACKET_TYPE 1 [0x7E]
               \<and> payload_length st' = payload_length st"
proof -
  let ?s = "store_byte 0x7E st"
  let ?st' = "set_state ?s SEEKING_PACKET_TYPE 1 0"
  have a: "state st = SEEKING_START_BYTE" "bytes_to_read st = 1" "bytes_read st = 0"
    "pos st = 0" "packet st = pkt0" "length pkt0 = MAX_PACKET_LEN" "\<not> next_is_special st"
    using assms by (simp_all add: at_stage_def)
  have p: "lunix_protocol_parse_state False st (0x7E # rest) = (?s, rest, Complete)"
    using a by (simp add: MAX_PACKET_LEN_def parse_state_idle store_byte_def)
  have n: "pkt0 \<noteq> []" using a(6) by (auto simp: MAX_PACKET_LEN_def)
  have pk: "packet ?s = [0x7E] @ drop 1 pkt0"
    using a n by (cases pkt0) (simp_all add: store_byte_def)
  then have "packet ?s ! 0 = 0x7E" by simp
  then have "received_step upd (st, w) (0x7E # rest) = ((?st', w), rest)"
    using a p by (simp add: received_step_def)
  moreover have "at_stage pkt0 ?st' SEEKING_PACKET_TYPE 1 [0x7E]"
    using a pk by (simp add: at_stage_def set_state_def store_byte_def)
  moreover have "payload_length ?st' = payload_length st"
    by (simp add: set_state_def store_byte_def)
  ultimately show ?thesis using received_buf_step [of "0x7E # rest" upd "(st, w)" "(?st', w)" rest]
    by auto
qed

lemma end_step:
  assumes "at_stage pkt0 st SEEKING_END_BYTE 1 pre" and "length pre + 1 \<le> MAX_PACKET_LEN"
  shows "\<exists>st'. lunix_protocol_received_buf upd (st, w) [0x7E]
                 = (st', upd (pre @ [0x7E] @ drop (length pre + 1) pkt0) w)
               \<and> at_stage (pre @ [0x7E] @ drop (length pre + 1) pkt0) st' SEEKING_START_BYTE 1 []
               \<and> payload_length st' = payload_length st"
proof -
  let ?s = "store_byte 0x7E st"
  let ?pkt = "pre @ [0x7E] @ drop (length pre + 1) pkt0"
  have a: "state st = SEEKING_END_BYTE" "bytes_to_read st = 1" "bytes_read st = 0"
    "pos st = length pre" "packet st = pre @ drop (length pre) pkt0"
    "length pkt0 = MAX_PACKET_LEN" "\<not> next_is_special st"
    using assms by (simp_all add: at_stage_def)
  have p: "lunix_protocol_parse_state False st [0x7E] = (?s, [], Complete)"
    using a assms(2) by (simp add: store_byte_def)
  have "drop (length pre) pkt0 \<noteq> []" using a(6) assms(2) by simp
  then obtain x xs where d: "drop (length pre) pkt0 = x # xs" by (cases "drop (length pre) pkt0") auto
  then have "xs = drop (length pre + 1) pkt0"
    by (metis Suc_eq_plus1 drop_Suc drop_drop list.sel(3) tl_drop add.commute)
  then have pk: "packet ?s = ?pkt"
    using a d by (simp add: store_byte_def list_update_append)
  have "pos ?s = length pre + 1" using a by (simp add: store_byte_def)
  then have "packet ?s ! (pos ?s - 1) = 0x7E" using pk by (simp add: nth_append)
  then have "received_step upd (st, w) [0x7E] = ((lunix_protocol_init ?s, upd ?pkt w), [])"
    using a p pk by (simp add: received_step_def)
  then have "lunix_protocol_received_buf upd (st, w) [0x7E] = (lunix_protocol_init ?s, upd ?pkt w)"
    using received_buf_step [of "[0x7E]" upd "(st, w)" "(lunix_protocol_init ?s, upd ?pkt w)" "[]"]
    by (simp add: received_buf_Nil)
  moreover have "at_stage ?pkt (lunix_protocol_init ?s) SEEKING_START_BYTE 1 []"
    using pk a(6) assms(2) by (simp add: at_stage_def lunix_protocol_init_def set_state_def)
  moreover have "payload_length (lunix_protocol_init ?s) = payload_length st"
    by (simp add: lunix_protocol_init_def set_state_def store_byte_def)
  ultimately show ?thesis by blast
qed

lemma wire_frame_split:
  "wire_frame ptype dest amtype amgroup payload crc =
     0x7E # (stuffed [ptype] @ (stuffed [fst dest, snd dest] @ (stuffed [amtype] @ (stuffed [amgroup]
       @ (stuffed [of_nat (length payload)] @ (stuffed payload @ (stuffed [fst crc, snd crc] @ [0x7E])))))))"
  by (simp add: wire_frame_def frame_body_def stuffed_def)

lemma frame_decoded:
  assumes "at_stage pkt0 st SEEKING_START_BYTE 1 []" and "length payload \<le> 255"
  shows "\<exists>st'. lunix_protocol_received_buf upd (st, w)
                  (wire_frame ptype dest amtype amgroup payload crc)
                 = (st', upd (0x7E # frame_body ptype dest amtype amgroup payload crc @ [0x7E]
                               @ drop (length payload + 10) pkt0) w)
               \<and> at_stage (0x7E # frame_body ptype dest amtype amgroup payload crc @ [0x7E]
                               @ drop (length payload + 10) pkt0) st' SEEKING_START_BYTE 1 []"
proof -
  let ?len = "of_nat (length payload) :: 8 word"
  let ?r8 = "[0x7E] :: 8 word list"
  let ?r7 = "stuffed [fst crc, snd crc] @ ?r8"
  let ?r6 = "stuffed payload @ ?r7"
  let ?r5 = "stuffed [?len] @ ?r6"
  let ?r4 = "stuffed [amgroup] @ ?r5"
  let ?r3 = "stuffed [amtype] @ ?r4"
  let ?r2 = "stuffed [fst dest, snd dest] @ ?r3"
  let ?r1 = "stuffed [ptype] @ ?r2"
  let ?rb = "lunix_protocol_received_buf upd"
  have ul: "unat ?len = length payload"
    using assms(2) by (simp add: unat_of_nat)
  have M: "MAX_PACKET_LEN = 300" by (simp add: MAX_PACKET_LEN_def)
  have ne: "?r8 \<noteq> []" "?r7 \<noteq> []" "?r6 \<noteq> []" "?r5 \<noteq> []" "?r4 \<noteq> []" "?r3 \<noteq> []" "?r2 \<noteq> []"
    by simp_all
  obtain s1 where s1: "?rb (st, w) (wire_frame ptype dest amtype amgroup payload crc) = ?rb (s1, w) ?r1"
      and a1: "at_stage pkt0 s1 SEEKING_PACKET_TYPE 1 [0x7E]"
    unfolding wire_frame_split using start_step [OF assms(1), of upd w ?r1] by blast
  obtain s2 where s2: "?rb (s1, w) ?r1 = ?rb (s2, w) ?r2"
      and a2: "at_stage pkt0 s2 SEEKING_DESTINATION_ADDRESS 2 ([0x7E] @ [ptype])"
    using collect_step [OF a1, where bs = "[ptype]" and rest = ?r2
        and N = SEEKING_DESTINATION_ADDRESS and c = 2 and upd = upd and w = w] ne
    by (auto simp: M)
  obtain s3 where s3: "?rb (s2, w) ?r2 = ?rb (s3, w) ?r3"
      and a3: "at_stage pkt0 s3 SEEKING_AM_TYPE 1 (([0x7E] @ [ptype]) @ [fst dest, snd dest])"
    using collect_step [OF a2, where bs = "[fst dest, snd dest]" and rest = ?r3
        and N = SEEKING_AM_TYPE and c = 1 and upd = upd and w = w] ne
    by (auto simp: M)
  obtain s4 where s4: "?rb (s3, w) ?r3 = ?rb (s4, w) ?r4"
      and a4: "at_stage pkt0 s4 SEEKING_AM_GROUP 1 ((([0x7E] @ [ptype]) @ [fst dest, snd dest]) @ [amtype])"
    using collect_step [OF a3, where bs = "[amtype]" and rest = ?r4
        and N = SEEKING_AM_GROUP and c = 1 and upd = upd and w = w] ne
    by (auto simp: M)
  obtain s5 where s5: "?rb (s4, w) ?r4 = ?rb (s5, w) ?r5"
      and a5: "at_stage pkt0 s5 SEEKING_PAYLOAD_LENGTH 1
                 (((([0x7E] @ [ptype]) @ [fst dest, snd dest]) @ [amtype]) @ [amgroup])"
    using collect_step [OF a4, where bs = "[amgroup]" and rest = ?r5
        and N = SEEKING_PAYLOAD_LENGTH and c = 1 and upd = upd and w = w] ne
    by (auto simp: M)
  obtain s6 where s6: "?rb (s5, w) ?r5 = ?rb (s6, w) ?r6"
      and a6: "at_stage pkt0 s6 SEEKING_PAYLOAD (length payload)
                 ((((([0x7E] @ [ptype]) @ [fst dest, snd dest]) @ [amtype]) @ [amgroup]) @ [?len])"
    using length_step [OF a5, where rest = ?r6 and upd = upd and w = w and len = ?len] ul ne
    by (auto simp: M)
  obtain s7 where s7: "?rb (s6, w) ?r6 = ?rb (s7, w) ?r7"
      and a7: "at_stage pkt0 s7 SEEKING_CRC 2
                 (((((([0x7E] @ [ptype]) @ [fst dest, snd dest]) @ [amtype]) @ [amgroup]) @ [?len]) @ payload)"
    using collect_step [OF a6, where bs = payload and rest = ?r7
        and N = SEEKING_CRC and c = 2 and upd = upd and w = w] ne assms(2)
    by (auto simp: M)
  let ?pre = "((((((([0x7E] @ [ptype]) @ [fst dest, snd dest]) @ [amtype]) @ [amgroup]) @ [?len]) @ payload)
                   @ [fst crc, snd crc])"
  obtain s8 where s8: "?rb (s7, w) ?r7 = ?rb (s8, w) ?r8"
      and a8: "at_stage pkt0 s8 SEEKING_END_BYTE 1 ?pre"
    using collect_step [OF a7, where bs = "[fst crc, snd crc]" and rest = ?r8
        and N = SEEKING_END_BYTE and c = 1 and upd = upd and w = w] ne assms(2)
    by (auto simp: M)
  obtain s9 where s9: "?rb (s8, w) ?r8 = (s9, upd (?pre @ [0x7E] @ drop (length ?pre + 1) pkt0) w)"
      and a9: "at_stage (?pre @ [0x7E] @ drop (length ?pre + 1) pkt0) s9 SEEKING_START_BYTE 1 []"
    using end_step [OF a8, of upd w] assms(2) by (auto simp: M)
  have "length ?pre + 1 = length payload + 10" by simp
  then have e: "?pre @ [0x7E] @ drop (length ?pre + 1) pkt0
         = 0x7E # frame_body ptype dest amtype amgroup payload crc @ [0x7E]
                               @ drop (length payload + 10) pkt0"
    by (simp only: frame_body_def append_Cons append_Nil append_assoc)
  show ?thesis
    using s1 s2 s3 s4 s5 s6 s7 s8 s9 a9 unfolding e by (intro exI [of _ s9]) simp
qed

lemma frame_fields_of_frame:
  assumes "17 \<le> length payload"
  shows "frame_fields (0x7E # frame_body ptype dest amtype amgroup payload crc @ stale) = payload_fields payload"
  using assms
  by (simp add: frame_fields_def payload_fields_def uint16_from_packet_def le16_def frame_body_def
        NODE_OFFSET_def VREF_OFFSET_def TEMPERATURE_OFFSET_def LIGHT_OFFSET_def nth_append)

lemma initial_at_stage:
  "at_stage (replicate MAX_PACKET_LEN 0) initial_protocol_state SEEKING_START_BYTE 1 []"
  by (simp add: at_stage_def initial_protocol_state_def lunix_protocol_init_def set_state_def)

text \<open>
  Claim C4. For every frame on the wire (byte-stuffed, so also with \<^verbatim>\<open>0x7E\<close> and
  \<^verbatim>\<open>0x7D\<close> escaped in payload or CRC) and every way of cutting its bytes into
  consecutive chunks, feeding the chunks one call after the other from the initial parser
  state leaves the same parser state and the same effect of the hand-over as feeding the
  whole frame in one call, whatever the hand-over does with a packet. For a frame whose
  payload has from 17 to 255 bytes, exactly one packet is handed over in both cases, and
  the fields extracted from it are the node id, battery, temperature and light fields of
  the payload; the parser is back at seeking a start byte.
\<close>

theorem chunk_boundary_independence:
  assumes "concat chunks = wire_frame ptype dest amtype amgroup payload crc"
  shows "feed_chunks upd (initial_protocol_state, w) chunks
           = lunix_protocol_received_buf upd (initial_protocol_state, w)
               (wire_frame ptype dest amtype amgroup payload crc)
     \<and> (17 \<le> length payload \<and> length payload \<le> 255 \<longrightarrow>
          snd (feed_chunks (\<lambda>p log. log @ [frame_fields p]) (initial_protocol_state, []) chunks)
            = [payload_fields payload]
          \<and> snd (lunix_protocol_received_buf (\<lambda>p log. log @ [frame_fields p])
                   (initial_protocol_state, []) (wire_frame ptype dest amtype amgroup payload crc))
            = [payload_fields payload]
          \<and> state (fst (feed_chunks upd (initial_protocol_state, w) chunks)) = SEEKING_START_BYTE)"
proof -
  have a: "feed_chunks u (initial_protocol_state, x) chunks
           = lunix_protocol_received_buf u (initial_protocol_state, x)
               (wire_frame ptype dest amtype amgroup payload crc)" for u :: "8 word list \<Rightarrow> 'b \<Rightarrow> 'b" and x
    by (simp add: feed_chunks_concat assms)
  have b: "snd (lunix_protocol_received_buf (\<lambda>p log. log @ [frame_fields p])
                   (initial_protocol_state, []) (wire_frame ptype dest amtype amgroup payload crc))
            = [payload_fields payload]
          \<and> state (fst (lunix_protocol_received_buf upd (initial_protocol_state, w)
               (wire_frame ptype dest amtype amgroup payload crc))) = SEEKING_START_BYTE"
    if l: "17 \<le> length payload" "length payload \<le> 255"
  proof -
    from frame_decoded [OF initial_at_stage l(2), of "\<lambda>p log. log @ [frame_fields p]" "[]"
        ptype dest amtype amgroup crc]
    have "snd (lunix_protocol_received_buf (\<lambda>p log. log @ [frame_fields p])
                   (initial_protocol_state, []) (wire_frame ptype dest amtype amgroup payload crc))
            = [payload_fields payload]"
      using frame_fields_of_frame [OF l(1)] by auto
    moreover from frame_decoded [OF initial_at_stage l(2), of upd w ptype dest amtype amgroup crc]
    have "state (fst (lunix_protocol_received_buf upd (initial_protocol_state, w)
               (wire_frame ptype dest amtype amgroup payload crc))) = SEEKING_START_BYTE"
      by (auto simp: at_stage_def)
    ultimately show ?thesis by simp
  qed
  show ?thesis using a [of upd w] a [of "\<lambda>p log. log @ [frame_fields p]" "[]"] b by simp
qed

lemma example_wire:
  "concat example_chunks = wire_frame 0x42 (0x7E, 0x00) 0x0B 0x7D example_payload (0x7E, 0x7D)"
  by (simp add: example_chunks_def wire_frame_def frame_body_def example_payload_def
        stuffed_def stuff_byte_def)

lemma example_payload_fields: "payload_fields example_payload = (126, 637, 500, 300)"
  by (simp add: payload_fields_def example_payload_def le16_def)

text \<open>
  Witness for C4: the example frame in its seven chunks, and in one piece, gives the
  fields (126, 637, 500, 300).
\<close>

theorem chunk_boundary_independence_witness:
  "concat example_chunks = wire_frame 0x42 (0x7E, 0x00) 0x0B 0x7D example_payload (0x7E, 0x7D)
   \<and> 17 \<le> length example_payload \<and> length example_payload \<le> 255
   \<and> snd (feed_chunks (\<lambda>p log. log @ [frame_fields p]) (initial_protocol_state, []) example_chunks)
       = [(126, 637, 500, 300)]
   \<and> snd (lunix_protocol_received_buf (\<lambda>p log. log @ [frame_fields p]) (initial_protocol_state, [])
            (wire_frame 0x42 (0x7E, 0x00) 0x0B 0x7D example_payload (0x7E, 0x7D)))
       = [(126, 637, 500, 300)]"
  using chunk_boundary_independence [OF example_wire, of "\<lambda>p log. log @ [frame_fields p]" "[]"]
    example_wire example_payload_fields
  by (simp add: example_payload_def)

end
